theory Spec2Isabelle
  imports Complex_Main "HOL-Library.Word"
begin

section \<open>Double-precision arithmetic\<close>

text \<open>
  Every number of the program is a JavaScript \<^verbatim>\<open>number\<close>, an IEEE 754 binary64 value. A
  finite double is a rational, so doubles are modelled as \<^typ>\<open>rat\<close>, and each of the
  operations \<^verbatim>\<open>+\<close>, \<^verbatim>\<open>-\<close>, \<^verbatim>\<open>*\<close>, \<^verbatim>\<open>/\<close> is the exact operation on rationals followed
  by \<open>fl\<close>, rounding to the nearest number with a 53-bit significand, ties to the even
  significand. A decimal literal such as \<^verbatim>\<open>0.3\<close> denotes \<open>fl (3 / 10)\<close>.

  The exponent range is not modelled: whenever the arrays can be allocated (at most
  \<open>2 ^ 53 - 1\<close> bytes each), every value the program computes stays far inside the normal
  range of binary64, where \<open>fl\<close> is the rounding of IEEE 754. \<^verbatim>\<open>NaN\<close> arises in the
  program only from \<^verbatim>\<open>0 / 0\<close> with \<^verbatim>\<open>dpi = 0\<close>; it is modelled by \<open>None\<close> where it can
  reach an output.

  The inputs are the settings and what the PDF library delivers: \<^verbatim>\<open>pageWidth\<close> and
  \<^verbatim>\<open>pageHeight\<close> (results of \<^verbatim>\<open>Math.ceil\<close>) and \<^verbatim>\<open>pdf.numPages\<close>, natural numbers, as are
  \<^verbatim>\<open>dpi\<close> and \<^verbatim>\<open>compressionLevel\<close>, which come from a selection list and a slider.
\<close>

definition rne :: "rat \<Rightarrow> int" where
  "rne y = (let f = \<lfloor>y\<rfloor>; d = y - of_int f
            in if d < 1 / 2 then f
               else if 1 / 2 < d then f + 1
               else if even f then f else f + 1)"

function ilog2_up :: "rat \<Rightarrow> int" where
  "ilog2_up x = (if 2 \<le> x then ilog2_up (x / 2) + 1 else 0)"
  by pat_completeness auto
termination
proof (relation "measure (\<lambda>x. nat \<lfloor>x\<rfloor>)")
  fix x :: rat assume h: "2 \<le> x"
  have "of_int \<lfloor>x / 2\<rfloor> \<le> x / 2" by (rule of_int_floor_le)
  moreover have "x - 1 < of_int \<lfloor>x\<rfloor>" by linarith
  ultimately have "(of_int \<lfloor>x / 2\<rfloor> :: rat) < of_int \<lfloor>x\<rfloor>" using h by linarith
  hence "\<lfloor>x / 2\<rfloor> < \<lfloor>x\<rfloor>" by simp
  moreover have "0 < \<lfloor>x\<rfloor>" using h by linarith
  ultimately show "(x / 2, x) \<in> measure (\<lambda>x. nat \<lfloor>x\<rfloor>)" by simp
qed simp

function ilog2_down :: "rat \<Rightarrow> int" where
  "ilog2_down x = (if 0 < x \<and> x < 1 then ilog2_down (2 * x) - 1 else 0)"
  by pat_completeness auto
termination
proof (relation "measure (\<lambda>x. nat \<lceil>1 / x\<rceil>)")
  fix x :: rat assume h: "0 < x \<and> x < 1"
  hence g: "1 < 1 / x" by simp
  define c where "c = \<lceil>1 / x\<rceil>"
  have c2: "2 \<le> c" unfolding c_def using g by linarith
  have "1 / x \<le> of_int c" unfolding c_def by linarith
  hence "1 / (2 * x) \<le> of_int c / 2" by simp
  also have "\<dots> \<le> of_int (c - 1)" using c2 by simp
  finally have "\<lceil>1 / (2 * x)\<rceil> \<le> c - 1" by (simp only: ceiling_le)
  thus "(2 * x, x) \<in> measure (\<lambda>x. nat \<lceil>1 / x\<rceil>)"
    using c2 h by (simp add: c_def)
qed simp

declare ilog2_up.simps [simp del] ilog2_down.simps [simp del]

definition ilog2 :: "rat \<Rightarrow> int" where
  \<comment> \<open>the binary exponent of a positive rational: \<open>2 powi ilog2 x \<le> x < 2 powi (ilog2 x + 1)\<close>\<close>
  "ilog2 x = (if 1 \<le> x then ilog2_up x else ilog2_down x)"

definition fl :: "rat \<Rightarrow> rat" where
  \<comment> \<open>round to nearest binary64, ties to even\<close>
  "fl x = (if x = 0 then 0
           else let e = ilog2 \<bar>x\<bar> - 52 in of_int (rne (x / 2 powi e)) * 2 powi e)"

definition js_rem :: "rat \<Rightarrow> rat \<Rightarrow> rat" where
  \<comment> \<open>\<^verbatim>\<open>x % y\<close> for \<open>0 \<le> x\<close> and \<open>0 < y\<close>: the remainder is exact\<close>
  "js_rem x y = x - y * of_int \<lfloor>x / y\<rfloor>"

section \<open>The platform\<close>

text \<open>
  \<^verbatim>\<open>Math.sin\<close> and \<^verbatim>\<open>Math.cos\<close> are implementation-approximated, \<^verbatim>\<open>Math.random\<close> has no
  seed and the clock is the host's: the four are parameters. \<open>Math_random P k\<close> is the
  result of the \<open>k\<close>-th call of \<^verbatim>\<open>Math.random()\<close> during one conversion, and
  \<open>Date_toISOString P k\<close> that of the \<open>k\<close>-th \<^verbatim>\<open>new Date().toISOString()\<close>.
\<close>

record platform =
  Math_sin :: "rat \<Rightarrow> rat"
  Math_cos :: "rat \<Rightarrow> rat"
  Math_random :: "nat \<Rightarrow> rat"
  Date_toISOString :: "nat \<Rightarrow> string"

section \<open>Typed arrays and strings\<close>

type_synonym byte = "8 word"

datatype js_error = RangeError

definition ToUint8 :: "int \<Rightarrow> byte" where
  \<comment> \<open>storing an integer into a \<^verbatim>\<open>Uint8Array\<close> keeps it modulo 256\<close>
  "ToUint8 v = word_of_int v"

definition Uint8Array_new :: "int option \<Rightarrow> js_error + byte list" where
  \<comment> \<open>\<^verbatim>\<open>new Uint8Array(n)\<close>: zero-filled; \<^verbatim>\<open>NaN\<close> counts as 0; a negative length or one
      above \<open>2 ^ 53 - 1\<close> throws. An engine that runs out of memory earlier is outside
      the model.\<close>
  "Uint8Array_new n =
     (case n of
        None \<Rightarrow> Inr []
      | Some v \<Rightarrow> if 0 \<le> v \<and> v \<le> 2 ^ 53 - 1 then Inr (replicate (nat v) 0) else Inl RangeError)"

definition TypedArray_set :: "byte list \<Rightarrow> byte list \<Rightarrow> nat \<Rightarrow> js_error + byte list" where
  \<comment> \<open>\<^verbatim>\<open>dst.set(src, offset)\<close>\<close>
  "TypedArray_set dst src offset =
     (if offset + length src \<le> length dst
      then Inr (take offset dst @ src @ drop (offset + length src) dst)
      else Inl RangeError)"

definition index_or_zero :: "byte list \<Rightarrow> int \<Rightarrow> byte" where
  \<comment> \<open>\<^verbatim>\<open>arr[j] || 0\<close>: an index out of range reads \<^verbatim>\<open>undefined\<close>\<close>
  "index_or_zero arr j =
     (if 0 \<le> j \<and> nat j < length arr
      then (if arr ! nat j \<noteq> 0 then arr ! nat j else 0)
      else 0)"

function Number_toString :: "nat \<Rightarrow> string" where
  \<comment> \<open>the decimal digits of a non-negative integer, as a template literal prints it
      (below \<open>10 ^ 21\<close>)\<close>
  "Number_toString n =
     (if n < 10 then [''0123456789'' ! n]
      else Number_toString (n div 10) @ [''0123456789'' ! (n mod 10)])"
  by pat_completeness auto
termination
  by (relation "measure id") auto

declare Number_toString.simps [simp del]

definition Number_toString_opt :: "int option \<Rightarrow> string" where
  "Number_toString_opt v = (case v of None \<Rightarrow> ''NaN'' | Some n \<Rightarrow> Number_toString (nat n))"

fun join :: "string \<Rightarrow> string list \<Rightarrow> string" where
  "join sep [] = []"
| "join sep [x] = x"
| "join sep (x # y # ys) = x @ sep @ join sep (y # ys)"

definition TextEncoder_encode :: "string \<Rightarrow> byte list" where
  "TextEncoder_encode s = map (\<lambda>c. of_nat (of_char c)) s"

function for_fill ::
  "(nat \<Rightarrow> nat \<Rightarrow> byte \<times> nat) \<Rightarrow> nat \<Rightarrow> nat \<Rightarrow> byte list \<times> nat \<Rightarrow> byte list \<times> nat" where
  \<comment> \<open>\<^verbatim>\<open>for (let i = i0; i < n; i++) arr[i] = body(i)\<close>, with the count \<open>k\<close> of random
      draws made so far threaded through the body\<close>
  "for_fill body n i (arr, k) =
     (if i < n
      then (case body i k of (v, k') \<Rightarrow> for_fill body n (Suc i) (arr[i := v], k'))
      else (arr, k))"
  by pat_completeness auto
termination
  by (relation "measure (\<lambda>(body, n, i, st). n - i)") auto

declare for_fill.simps [simp del]

section \<open>generateRIPFiles\<close>

datatype ColorMode = CMYK | Grayscale | BlackWhite

record ConversionSettings =
  dpi :: nat
  colorMode :: ColorMode
  compressionLevel :: nat

definition ColorMode_string :: "ColorMode \<Rightarrow> string" where
  "ColorMode_string cm =
     (case cm of CMYK \<Rightarrow> ''CMYK'' | Grayscale \<Rightarrow> ''Grayscale'' | BlackWhite \<Rightarrow> ''BlackWhite'')"

subsection \<open>Sizes\<close>

definition bytesPerPixel :: "ConversionSettings \<Rightarrow> nat" where
  "bytesPerPixel s = (if colorMode s = CMYK then 4 else if colorMode s = Grayscale then 1 else 1)"

definition compressionRatio :: "ConversionSettings \<Rightarrow> rat" where
  "compressionRatio s = fl (of_nat (compressionLevel s) / 100)"

definition baseImageSize :: "ConversionSettings \<Rightarrow> nat \<Rightarrow> nat \<Rightarrow> nat \<Rightarrow> rat" where
  "baseImageSize s pageWidth pageHeight numPages =
     fl (fl (fl (of_nat pageWidth * of_nat pageHeight) * of_nat (bytesPerPixel s)) * of_nat numPages)"

definition compressedImageSize :: "ConversionSettings \<Rightarrow> nat \<Rightarrow> nat \<Rightarrow> nat \<Rightarrow> int" where
  "compressedImageSize s pageWidth pageHeight numPages =
     \<lfloor>fl (baseImageSize s pageWidth pageHeight numPages
          * fl (fl (1 - compressionRatio s) + fl (3 / 10)))\<rfloor>"

definition prtImageDataSize :: "ConversionSettings \<Rightarrow> nat \<Rightarrow> nat \<Rightarrow> nat \<Rightarrow> int" where
  "prtImageDataSize s pageWidth pageHeight numPages =
     compressedImageSize s pageWidth pageHeight numPages"

subsection \<open>Headers\<close>

definition prtHeader_lines ::
  "platform \<Rightarrow> ConversionSettings \<Rightarrow> nat \<Rightarrow> nat \<Rightarrow> nat \<Rightarrow> string list" where
  "prtHeader_lines P s pageWidth pageHeight numPages =
     [''RICOH_GEN6_RIP_V3.2'',
      ''FILE_TYPE:PRINT_DATA'',
      ''CREATED_BY:PDF_TO_RIP_CONVERTER'',
      ''TIMESTAMP:'' @ Date_toISOString P 0,
      ''DPI:'' @ Number_toString (dpi s),
      ''COLOR_MODE:'' @ ColorMode_string (colorMode s),
      ''COMPRESSION:'' @ Number_toString (compressionLevel s),
      ''PAGES:'' @ Number_toString numPages,
      ''PAGE_WIDTH:'' @ Number_toString pageWidth,
      ''PAGE_HEIGHT:'' @ Number_toString pageHeight,
      ''BYTES_PER_PIXEL:'' @ Number_toString (bytesPerPixel s),
      ''PRINT_HEAD_CONFIG:RICOH_GEN6'',
      ''NOZZLE_COUNT:1280'',
      ''DROP_SIZE:6PL'',
      ''FIRING_FREQUENCY:40KHZ'',
      ''PASS_COUNT:4'',
      ''INTERLEAVE_MODE:ENABLED'',
      ''COLOR_SEPARATION:ENABLED'',
      ''HALFTONE_METHOD:ERROR_DIFFUSION'',
      ''INK_DENSITY_CONTROL:ENABLED'',
      ''DROPLET_PLACEMENT_DATA_START'']"

definition prtHeader ::
  "platform \<Rightarrow> ConversionSettings \<Rightarrow> nat \<Rightarrow> nat \<Rightarrow> nat \<Rightarrow> byte list" where
  "prtHeader P s pageWidth pageHeight numPages =
     TextEncoder_encode
       (join [CHR 0x0A] (prtHeader_lines P s pageWidth pageHeight numPages) @ [CHR 0x0A])"

definition previewDPI :: "ConversionSettings \<Rightarrow> nat" where
  "previewDPI s = min (dpi s) 300"

definition previewWidth :: "ConversionSettings \<Rightarrow> nat \<Rightarrow> int option" where
  \<comment> \<open>\<open>None\<close> is \<^verbatim>\<open>NaN\<close>, from \<^verbatim>\<open>0 / 0\<close>\<close>
  "previewWidth s pageWidth =
     (if dpi s = 0 then None
      else Some \<lceil>fl (of_nat pageWidth * fl (of_nat (previewDPI s) / of_nat (dpi s)))\<rceil>)"

definition previewHeight :: "ConversionSettings \<Rightarrow> nat \<Rightarrow> int option" where
  "previewHeight s pageHeight =
     (if dpi s = 0 then None
      else Some \<lceil>fl (of_nat pageHeight * fl (of_nat (previewDPI s) / of_nat (dpi s)))\<rceil>)"

definition pvwHeader_lines ::
  "platform \<Rightarrow> ConversionSettings \<Rightarrow> nat \<Rightarrow> nat \<Rightarrow> nat \<Rightarrow> string list" where
  "pvwHeader_lines P s pageWidth pageHeight numPages =
     [''RICOH_GEN6_PREVIEW_V3.2'',
      ''FILE_TYPE:PREVIEW_DATA'',
      ''CREATED_BY:PDF_TO_RIP_CONVERTER'',
      ''TIMESTAMP:'' @ Date_toISOString P 1,
      ''DPI:'' @ Number_toString (previewDPI s),
      ''COLOR_MODE:'' @ ColorMode_string (colorMode s),
      ''COMPRESSION:90'',
      ''PAGES:'' @ Number_toString numPages,
      ''PAGE_WIDTH:'' @ Number_toString_opt (previewWidth s pageWidth),
      ''PAGE_HEIGHT:'' @ Number_toString_opt (previewHeight s pageHeight),
      ''BYTES_PER_PIXEL:'' @ Number_toString (bytesPerPixel s),
      ''PREVIEW_DATA_START'']"

definition pvwHeader ::
  "platform \<Rightarrow> ConversionSettings \<Rightarrow> nat \<Rightarrow> nat \<Rightarrow> nat \<Rightarrow> byte list" where
  "pvwHeader P s pageWidth pageHeight numPages =
     TextEncoder_encode
       (join [CHR 0x0A] (pvwHeader_lines P s pageWidth pageHeight numPages) @ [CHR 0x0A])"

subsection \<open>The primary payload\<close>

definition pageOffset :: "int \<Rightarrow> nat \<Rightarrow> nat \<Rightarrow> rat" where
  "pageOffset prtSize numPages i = js_rem (of_nat i) (fl (of_int prtSize / of_nat numPages))"

definition row :: "int \<Rightarrow> nat \<Rightarrow> nat \<Rightarrow> nat \<Rightarrow> int" where
  "row prtSize numPages pageWidth i = \<lfloor>fl (pageOffset prtSize numPages i / of_nat pageWidth)\<rfloor>"

definition col :: "int \<Rightarrow> nat \<Rightarrow> nat \<Rightarrow> nat \<Rightarrow> rat" where
  "col prtSize numPages pageWidth i = js_rem (pageOffset prtSize numPages i) (of_nat pageWidth)"

definition channel :: "nat \<Rightarrow> nat" where
  "channel i = i mod 4"

definition density_CMYK :: "platform \<Rightarrow> int \<Rightarrow> rat \<Rightarrow> rat" where
  "density_CMYK P r c =
     fl (fl (fl (Math_sin P (fl (of_int r * fl (1 / 100))) * Math_cos P (fl (c * fl (1 / 100))))
             * 127) + 128)"

definition density_Grayscale :: "platform \<Rightarrow> int \<Rightarrow> rat \<Rightarrow> rat" where
  "density_Grayscale P r c =
     fl (fl (fl (Math_sin P (fl (of_int r * fl (1 / 50))) * Math_cos P (fl (c * fl (1 / 50))))
             * 127) + 128)"

definition threshold :: "platform \<Rightarrow> int \<Rightarrow> rat \<Rightarrow> rat" where
  "threshold P r c =
     fl (fl (fl (Math_sin P (fl (of_int r * fl (1 / 10))) * Math_cos P (fl (c * fl (1 / 10))))
             * 127) + 128)"

definition prt_pixel ::
  "platform \<Rightarrow> ColorMode \<Rightarrow> int \<Rightarrow> nat \<Rightarrow> nat \<Rightarrow> nat \<Rightarrow> rat \<Rightarrow> byte" where
  \<comment> \<open>the value stored at index \<open>i\<close>; \<open>u\<close> is the result of \<^verbatim>\<open>Math.random()\<close> where the branch
      calls it\<close>
  "prt_pixel P cm prtSize numPages pageWidth i u =
     (let r = row prtSize numPages pageWidth i;
          c = col prtSize numPages pageWidth i
      in if cm = CMYK then
           (let ch = channel i;
                density = density_CMYK P r c
            in ToUint8 \<lfloor>fl (density * fl (fl (4 / 5) + fl (u * fl (2 / 5))))\<rfloor>)
         else if cm = Grayscale then
           (let density = density_Grayscale P r c
            in ToUint8 \<lfloor>fl (density * fl (fl (7 / 10) + fl (u * fl (3 / 5))))\<rfloor>)
         else
           (if 128 < threshold P r c then 255 else 0))"

definition prt_body ::
  "platform \<Rightarrow> ColorMode \<Rightarrow> int \<Rightarrow> nat \<Rightarrow> nat \<Rightarrow> nat \<Rightarrow> nat \<Rightarrow> byte \<times> nat" where
  "prt_body P cm prtSize numPages pageWidth i k =
     (prt_pixel P cm prtSize numPages pageWidth i (Math_random P k),
      if cm = BlackWhite then k else Suc k)"

definition prtImageData_fill ::
  "platform \<Rightarrow> ConversionSettings \<Rightarrow> nat \<Rightarrow> nat \<Rightarrow> nat \<Rightarrow> byte list \<times> nat" where
  \<comment> \<open>the filled array and the number of random draws made\<close>
  "prtImageData_fill P s pageWidth pageHeight numPages =
     (let prtSize = prtImageDataSize s pageWidth pageHeight numPages
      in for_fill (prt_body P (colorMode s) prtSize numPages pageWidth) (nat prtSize) 0
           (replicate (nat prtSize) 0, 0))"

definition prtImageData ::
  "platform \<Rightarrow> ConversionSettings \<Rightarrow> nat \<Rightarrow> nat \<Rightarrow> nat \<Rightarrow> byte list" where
  "prtImageData P s pageWidth pageHeight numPages =
     fst (prtImageData_fill P s pageWidth pageHeight numPages)"

subsection \<open>The preview payload\<close>

definition pvwImageDataSize :: "ConversionSettings \<Rightarrow> nat \<Rightarrow> nat \<Rightarrow> nat \<Rightarrow> int option" where
  "pvwImageDataSize s pageWidth pageHeight numPages =
     (case (previewWidth s pageWidth, previewHeight s pageHeight) of
        (Some w, Some h) \<Rightarrow>
          Some \<lfloor>fl (fl (fl (fl (of_int w * of_int h) * of_nat (bytesPerPixel s)) * of_nat numPages)
                    * fl (9 / 10))\<rfloor>
      | _ \<Rightarrow> None)"

definition sourceIndex :: "nat \<Rightarrow> int \<Rightarrow> nat \<Rightarrow> int" where
  "sourceIndex pvwSize prtSize i = \<lfloor>fl (fl (of_nat i / of_nat pvwSize) * of_int prtSize)\<rfloor>"

definition pvw_body :: "byte list \<Rightarrow> nat \<Rightarrow> int \<Rightarrow> nat \<Rightarrow> nat \<Rightarrow> byte \<times> nat" where
  "pvw_body prt pvwSize prtSize i k = (index_or_zero prt (sourceIndex pvwSize prtSize i), k)"

definition pvwImageData_of :: "byte list \<Rightarrow> nat \<Rightarrow> int \<Rightarrow> byte list" where
  \<comment> \<open>the preview loop over a primary payload \<open>prt\<close>\<close>
  "pvwImageData_of prt pvwSize prtSize =
     fst (for_fill (pvw_body prt pvwSize prtSize) pvwSize 0 (replicate pvwSize 0, 0))"

definition pvwImageData ::
  "platform \<Rightarrow> ConversionSettings \<Rightarrow> nat \<Rightarrow> nat \<Rightarrow> nat \<Rightarrow> byte list" where
  "pvwImageData P s pageWidth pageHeight numPages =
     pvwImageData_of (prtImageData P s pageWidth pageHeight numPages)
       (case pvwImageDataSize s pageWidth pageHeight numPages of None \<Rightarrow> 0 | Some v \<Rightarrow> nat v)
       (prtImageDataSize s pageWidth pageHeight numPages)"

subsection \<open>Control data\<close>

definition controlDataSize :: "int \<Rightarrow> int" where
  "controlDataSize prtSize = \<lfloor>fl (of_int prtSize * fl (1 / 10))\<rfloor>"

definition nozzleIndex :: "nat \<Rightarrow> nat" where
  "nozzleIndex i = i mod 1280"

definition firingDelay :: "nat \<Rightarrow> int" where
  "firingDelay i = \<lfloor>fl (fl (of_nat (nozzleIndex i) / 1280) * 255)\<rfloor>"

definition dropletSize :: "platform \<Rightarrow> ColorMode \<Rightarrow> nat \<Rightarrow> int" where
  "dropletSize P cm k =
     (if cm = BlackWhite then 255 else \<lfloor>fl (128 + fl (Math_random P k * 127))\<rfloor>)"

definition control_body :: "platform \<Rightarrow> ColorMode \<Rightarrow> nat \<Rightarrow> nat \<Rightarrow> byte \<times> nat" where
  "control_body P cm i k =
     (ToUint8 ((firingDelay i + dropletSize P cm k) mod 256),
      if cm = BlackWhite then k else Suc k)"

definition controlData_fill :: "platform \<Rightarrow> ColorMode \<Rightarrow> int \<Rightarrow> nat \<Rightarrow> byte list \<times> nat" where
  \<comment> \<open>\<open>k\<close> is the number of random draws made before the loop\<close>
  "controlData_fill P cm prtSize k =
     (let n = nat (controlDataSize prtSize)
      in for_fill (control_body P cm) n 0 (replicate n 0, k))"

definition controlData ::
  "platform \<Rightarrow> ConversionSettings \<Rightarrow> nat \<Rightarrow> nat \<Rightarrow> nat \<Rightarrow> byte list" where
  "controlData P s pageWidth pageHeight numPages =
     fst (controlData_fill P (colorMode s) (prtImageDataSize s pageWidth pageHeight numPages)
            (snd (prtImageData_fill P s pageWidth pageHeight numPages)))"

subsection \<open>Assembly\<close>

definition ArrayBuffer_new :: "nat \<Rightarrow> js_error + byte list" where
  "ArrayBuffer_new n = Uint8Array_new (Some (int n))"

definition bind_err :: "js_error + 'a \<Rightarrow> ('a \<Rightarrow> js_error + 'b) \<Rightarrow> js_error + 'b" where
  "bind_err m f = (case m of Inl e \<Rightarrow> Inl e | Inr v \<Rightarrow> f v)"

definition prtResult :: "byte list \<Rightarrow> byte list \<Rightarrow> byte list \<Rightarrow> js_error + byte list" where
  "prtResult header imageData control =
     bind_err (ArrayBuffer_new (length header + length imageData + length control)) (\<lambda>b0.
     bind_err (TypedArray_set b0 header 0) (\<lambda>b1.
     bind_err (TypedArray_set b1 imageData (length header)) (\<lambda>b2.
     TypedArray_set b2 control (length header + length imageData))))"

definition pvwResult :: "byte list \<Rightarrow> byte list \<Rightarrow> js_error + byte list" where
  "pvwResult header imageData =
     bind_err (ArrayBuffer_new (length header + length imageData)) (\<lambda>b0.
     bind_err (TypedArray_set b0 header 0) (\<lambda>b1.
     TypedArray_set b1 imageData (length header)))"

definition generateRIPFiles ::
  "platform \<Rightarrow> ConversionSettings \<Rightarrow> nat \<Rightarrow> nat \<Rightarrow> nat \<Rightarrow> js_error + byte list \<times> byte list" where
  \<comment> \<open>the function from the page geometry on; the result is \<open>(prtData, pvwData)\<close>\<close>
  "generateRIPFiles P s pageWidth pageHeight numPages =
     bind_err (Uint8Array_new (Some (prtImageDataSize s pageWidth pageHeight numPages))) (\<lambda>_.
     bind_err (Uint8Array_new (pvwImageDataSize s pageWidth pageHeight numPages)) (\<lambda>_.
     bind_err (Uint8Array_new
                 (Some (controlDataSize (prtImageDataSize s pageWidth pageHeight numPages)))) (\<lambda>_.
     bind_err (prtResult (prtHeader P s pageWidth pageHeight numPages)
                 (prtImageData P s pageWidth pageHeight numPages)
                 (controlData P s pageWidth pageHeight numPages)) (\<lambda>prtData.
     bind_err (pvwResult (pvwHeader P s pageWidth pageHeight numPages)
                 (pvwImageData P s pageWidth pageHeight numPages)) (\<lambda>pvwData.
     Inr (prtData, pvwData))))))"

subsection \<open>Concrete inputs\<close>

text \<open>
  The examples below run on a concrete host: its sine and cosine are Taylor polynomials
  rounded to a double, every call of \<^verbatim>\<open>Math.random()\<close> returns \<open>15 / 16\<close> and its clock is
  fixed. \<open>scenario\<close> is the setting of the round-trip scenario of the specification,
  \<open>cmyk_settings\<close> a CMYK setting and \<open>shift_settings\<close> a BlackWhite setting with compression
  level 70. The definitions named \<open>spec_\<close> are not part of the program; they follow the
  words of the specification, to compare with the program: \<open>spec_clamped_byte\<close> is the
  clamped store it describes, to compare with \<open>ToUint8\<close>; \<open>spec_payload_length\<close> and
  \<open>spec_sourceIndex\<close> are its formulas for the length of the primary payload and for the
  sampled index, evaluated in the arithmetic of the rationals, with no rounding, to compare
  with \<open>compressedImageSize\<close> and \<open>sourceIndex\<close>.
\<close>

definition sin_poly :: "rat \<Rightarrow> rat" where
  \<comment> \<open>a polynomial approximation of the sine, exact at 0\<close>
  "sin_poly x = fl (x - x ^ 3 / 6 + x ^ 5 / 120 - x ^ 7 / 5040 + x ^ 9 / 362880)"

definition cos_poly :: "rat \<Rightarrow> rat" where
  \<comment> \<open>a polynomial approximation of the cosine, exact at 0\<close>
  "cos_poly x = fl (1 - x ^ 2 / 2 + x ^ 4 / 24 - x ^ 6 / 720 + x ^ 8 / 40320)"

definition host :: platform where
  "host = \<lparr>Math_sin = sin_poly, Math_cos = cos_poly, Math_random = (\<lambda>k. 15 / 16),
           Date_toISOString = (\<lambda>k. ''2024-01-01T00:00:00.000Z'')\<rparr>"

definition scenario :: ConversionSettings where
  "scenario = \<lparr>dpi = 600, colorMode = BlackWhite, compressionLevel = 80\<rparr>"

definition cmyk_settings :: ConversionSettings where
  "cmyk_settings = \<lparr>dpi = 600, colorMode = CMYK, compressionLevel = 50\<rparr>"

definition spec_clamped_byte :: "int \<Rightarrow> byte" where
  \<comment> \<open>the specification's reading of a store: the value clamped to \<open>[0, 255]\<close>\<close>
  "spec_clamped_byte v = word_of_int (max 0 (min 255 v))"

definition shift_settings :: ConversionSettings where
  "shift_settings = \<lparr>dpi = 600, colorMode = BlackWhite, compressionLevel = 70\<rparr>"

definition spec_payload_length :: "ConversionSettings \<Rightarrow> nat \<Rightarrow> nat \<Rightarrow> nat \<Rightarrow> int" where
  \<comment> \<open>the specification's formula for the length of the primary payload, without rounding\<close>
  "spec_payload_length s pageWidth pageHeight numPages =
     \<lfloor>(of_nat pageWidth * of_nat pageHeight * of_nat (bytesPerPixel s) * of_nat numPages
        * (1 - of_nat (compressionLevel s) / 100 + 3 / 10) :: rat)\<rfloor>"

definition spec_sourceIndex :: "nat \<Rightarrow> nat \<Rightarrow> nat \<Rightarrow> int" where
  \<comment> \<open>the specification's formula for the sampled index, without rounding\<close>
  "spec_sourceIndex previewLength primaryLength i =
     \<lfloor>(of_nat i / of_nat previewLength * of_nat primaryLength :: rat)\<rfloor>"

section \<open>Properties of the arithmetic\<close>

subsection \<open>Binary exponents\<close>

lemma two_powi_Suc: "(2::rat) powi (k + 1) = 2 * 2 powi k"
  by (simp add: power_int_add)

lemma two_powi_pred: "(2::rat) powi (k - 1) = 2 powi k / 2"
  by (simp add: power_int_diff)

lemma two_powi_pos [simp]: "0 < (2::rat) powi k"
  by (simp add: power_int_def)

lemma two_powi_mono: "a \<le> b \<Longrightarrow> (2::rat) powi a \<le> 2 powi b"
  by (rule power_int_increasing) simp_all

lemma ilog2_up_bounds:
  "1 \<le> x \<Longrightarrow> 2 powi (ilog2_up x) \<le> x \<and> x < 2 powi (ilog2_up x + 1)"
proof (induction x rule: ilog2_up.induct)
  case (1 x)
  show ?case
  proof (cases "2 \<le> x")
    case True
    hence "1 \<le> x / 2" by simp
    from "1.IH" [OF True this]
    have "2 powi (ilog2_up (x / 2)) \<le> x / 2 \<and> x / 2 < 2 powi (ilog2_up (x / 2) + 1)" .
    moreover have "ilog2_up x = ilog2_up (x / 2) + 1"
      using True by (subst ilog2_up.simps) simp
    ultimately show ?thesis
      by (simp only: two_powi_Suc) simp
  next
    case False
    hence "ilog2_up x = 0" by (subst ilog2_up.simps) simp
    with False "1.prems" show ?thesis by simp
  qed
qed

lemma ilog2_down_bounds:
  "0 < x \<Longrightarrow> x < 1 \<Longrightarrow> 2 powi (ilog2_down x) \<le> x \<and> x < 2 powi (ilog2_down x + 1)"
proof (induction x rule: ilog2_down.induct)
  case (1 x)
  show ?case
  proof (cases "2 * x < 1")
    case True
    from "1.IH" "1.prems" True
    have "2 powi (ilog2_down (2 * x)) \<le> 2 * x \<and> 2 * x < 2 powi (ilog2_down (2 * x) + 1)"
      by simp
    moreover have "ilog2_down x = ilog2_down (2 * x) - 1"
      using "1.prems" by (subst ilog2_down.simps) simp
    ultimately show ?thesis
      by (simp only: two_powi_Suc two_powi_pred) simp
  next
    case False
    hence "ilog2_down (2 * x) = 0" by (subst ilog2_down.simps) simp
    hence "ilog2_down x = - 1"
      using "1.prems" by (subst ilog2_down.simps) simp
    with False "1.prems" show ?thesis by (simp add: power_int_minus)
  qed
qed

lemma ilog2_bounds:
  "0 < x \<Longrightarrow> 2 powi (ilog2 x) \<le> x \<and> x < 2 powi (ilog2 x + 1)"
  using ilog2_up_bounds [of x] ilog2_down_bounds [of x]
  by (cases "1 \<le> x") (simp_all add: ilog2_def)

lemma ilog2_unique:
  assumes "2 powi e \<le> x" and "x < 2 powi (e + 1)"
  shows "ilog2 x = e"
proof -
  have xpos: "0 < x" using assms(1) two_powi_pos [of e] by linarith
  note b = ilog2_bounds [OF xpos]
  have "\<not> ilog2 x < e"
  proof
    assume "ilog2 x < e"
    hence "(2::rat) powi (ilog2 x + 1) \<le> 2 powi e" by (intro two_powi_mono) simp
    with b assms show False by linarith
  qed
  moreover have "\<not> e < ilog2 x"
  proof
    assume "e < ilog2 x"
    hence "(2::rat) powi (e + 1) \<le> 2 powi (ilog2 x)" by (intro two_powi_mono) simp
    with b assms show False by linarith
  qed
  ultimately show ?thesis by simp
qed

subsection \<open>Rounding to an integer\<close>

lemma rne_floor: "\<lfloor>y\<rfloor> \<le> rne y \<and> rne y \<le> \<lfloor>y\<rfloor> + 1"
  by (simp add: rne_def Let_def)

lemma rne_bounds: "of_int (rne y) - 1 / 2 \<le> y \<and> y \<le> of_int (rne y) + 1 / 2"
proof -
  have "of_int \<lfloor>y\<rfloor> \<le> y" "y < of_int \<lfloor>y\<rfloor> + 1" by linarith+
  thus ?thesis unfolding rne_def Let_def by (auto; linarith)
qed

lemma rne_of_int [simp]: "rne (of_int k) = k"
  by (simp add: rne_def)

lemma rne_mono:
  assumes "x \<le> y"
  shows "rne x \<le> rne y"
proof (cases "\<lfloor>x\<rfloor> = \<lfloor>y\<rfloor>")
  case True
  with assms show ?thesis by (simp add: rne_def Let_def)
next
  case False
  moreover have "\<lfloor>x\<rfloor> \<le> \<lfloor>y\<rfloor>" using assms by (rule floor_mono)
  ultimately have "\<lfloor>x\<rfloor> + 1 \<le> \<lfloor>y\<rfloor>" by simp
  with rne_floor [of x] rne_floor [of y] show ?thesis by linarith
qed

subsection \<open>Rounding to a double\<close>

lemma fl_zero [simp]: "fl 0 = 0"
  by (simp add: fl_def)

lemma fl_pos_eq:
  "0 < x \<Longrightarrow> fl x = of_int (rne (x / 2 powi (ilog2 x - 52))) * 2 powi (ilog2 x - 52)"
  by (simp add: fl_def Let_def)

text \<open>With the binade of \<open>x\<close> known, rounding is to a multiple of the spacing there.\<close>

lemma fl_binade:
  assumes "2 powi e \<le> x" and "x < 2 powi (e + 1)"
  shows "fl x = of_int (rne (x / 2 powi (e - 52))) * 2 powi (e - 52)"
proof -
  have "0 < x" using assms(1) two_powi_pos [of e] by linarith
  thus ?thesis by (simp add: fl_pos_eq ilog2_unique [OF assms])
qed

lemma scaled_bounds:
  assumes "2 powi e \<le> (x::rat)" and "x < 2 powi (e + 1)"
  shows "2 ^ 52 \<le> x / 2 powi (e - 52)" and "x / 2 powi (e - 52) < 2 ^ 53"
proof -
  have p: "(2::rat) powi e = 2 ^ 52 * 2 powi (e - 52)"
    by (simp add: power_int_diff)
  have q: "(2::rat) powi (e + 1) = 2 ^ 53 * 2 powi (e - 52)"
    by (simp add: power_int_diff power_int_add)
  show "2 ^ 52 \<le> x / 2 powi (e - 52)"
    using assms(1) unfolding p by (simp add: pos_le_divide_eq)
  show "x / 2 powi (e - 52) < 2 ^ 53"
    using assms(2) unfolding q by (simp add: pos_divide_less_eq)
qed

lemma fl_binade_bounds:
  assumes "2 powi e \<le> x" and "x < 2 powi (e + 1)"
  shows "2 powi e \<le> fl x" and "fl x \<le> 2 powi (e + 1)"
proof -
  let ?s = "(2::rat) powi (e - 52)"
  have p: "(2::rat) powi e = 2 ^ 52 * ?s"
    by (simp add: power_int_diff)
  have q: "(2::rat) powi (e + 1) = 2 ^ 53 * ?s"
    by (simp add: power_int_diff power_int_add)
  from scaled_bounds [OF assms]
  have "rne (of_int (2 ^ 52)) \<le> rne (x / ?s)" "rne (x / ?s) \<le> rne (of_int (2 ^ 53))"
    by (auto intro!: rne_mono)
  hence r: "2 ^ 52 \<le> rne (x / ?s)" "rne (x / ?s) \<le> 2 ^ 53"
    by (simp_all only: rne_of_int)
  have "(2 ^ 52 :: rat) \<le> of_int (rne (x / ?s))"
    using r(1) by (metis of_int_le_iff of_int_numeral of_int_power)
  thus "2 powi e \<le> fl x"
    unfolding fl_binade [OF assms] p by (intro mult_right_mono) simp_all
  have "of_int (rne (x / ?s)) \<le> (2 ^ 53 :: rat)"
    using r(2) by (metis of_int_le_iff of_int_numeral of_int_power)
  thus "fl x \<le> 2 powi (e + 1)"
    unfolding fl_binade [OF assms] q by (intro mult_right_mono) simp_all
qed

lemma fl_mono_pos:
  assumes "0 < x" and "x \<le> y"
  shows "fl x \<le> fl y"
proof -
  have ypos: "0 < y" using assms by linarith
  note bx = ilog2_bounds [OF assms(1)] and bY = ilog2_bounds [OF ypos]
  have le: "ilog2 x \<le> ilog2 y"
  proof (rule ccontr)
    assume "\<not> ilog2 x \<le> ilog2 y"
    hence "(2::rat) powi (ilog2 y + 1) \<le> 2 powi (ilog2 x)" by (intro two_powi_mono) simp
    with bx bY assms show False by linarith
  qed
  show ?thesis
  proof (cases "ilog2 x = ilog2 y")
    case True
    have "x / 2 powi (ilog2 y - 52) \<le> y / 2 powi (ilog2 y - 52)"
      using assms(2) by (intro divide_right_mono) simp_all
    hence "rne (x / 2 powi (ilog2 y - 52)) \<le> rne (y / 2 powi (ilog2 y - 52))"
      by (rule rne_mono)
    hence "(of_int (rne (x / 2 powi (ilog2 y - 52))) :: rat)
             \<le> of_int (rne (y / 2 powi (ilog2 y - 52)))" by simp
    hence "of_int (rne (x / 2 powi (ilog2 y - 52))) * 2 powi (ilog2 y - 52)
             \<le> of_int (rne (y / 2 powi (ilog2 y - 52))) * (2::rat) powi (ilog2 y - 52)"
      by (intro mult_right_mono) simp_all
    thus ?thesis
      by (simp add: fl_pos_eq assms(1) ypos True)
  next
    case False
    with le have "ilog2 x + 1 \<le> ilog2 y" by simp
    hence "(2::rat) powi (ilog2 x + 1) \<le> 2 powi (ilog2 y)" by (rule two_powi_mono)
    moreover have "fl x \<le> 2 powi (ilog2 x + 1)"
      using fl_binade_bounds(2) bx by blast
    moreover have "2 powi (ilog2 y) \<le> fl y"
      using fl_binade_bounds(1) bY by blast
    ultimately show ?thesis by linarith
  qed
qed

lemma fl_pos: "0 < x \<Longrightarrow> 0 < fl x"
proof -
  assume "0 < x"
  from fl_binade_bounds(1) [of "ilog2 x" x] ilog2_bounds [OF this]
  have "2 powi (ilog2 x) \<le> fl x" by blast
  with two_powi_pos [of "ilog2 x"] show ?thesis by linarith
qed

lemma fl_nonneg: "0 \<le> x \<Longrightarrow> 0 \<le> fl x"
  using fl_pos [of x] by (cases "x = 0") simp_all

lemma fl_mono:
  assumes "0 \<le> x" and "x \<le> y"
  shows "fl x \<le> fl y"
proof (cases "x = 0")
  case True
  with assms fl_nonneg [of y] show ?thesis by simp
next
  case False
  with assms have "0 < x" by simp
  thus ?thesis using assms(2) by (rule fl_mono_pos)
qed

lemma rne_minus: "rne (- y) = - rne y"
proof (cases "y = of_int \<lfloor>y\<rfloor>")
  case True
  then obtain k where "y = of_int k" ..
  thus ?thesis by (simp add: rne_of_int [of "- k", simplified])
next
  case False
  hence lt: "of_int \<lfloor>y\<rfloor> < y" using of_int_floor_le [of y] by linarith
  have "\<lfloor>- y\<rfloor> = - \<lfloor>y\<rfloor> - 1"
  proof (rule floor_unique)
    have "y < of_int \<lfloor>y\<rfloor> + 1" by linarith
    thus "of_int (- \<lfloor>y\<rfloor> - 1) \<le> - y" by simp
    show "- y < of_int (- \<lfloor>y\<rfloor> - 1) + 1"
      using lt by simp
  qed
  thus ?thesis
    using lt by (auto simp: rne_def Let_def)
qed

lemma fl_minus: "fl (- x) = - fl x"
  by (simp add: fl_def Let_def rne_minus)

lemma fl_nonpos: "x \<le> 0 \<Longrightarrow> fl x \<le> 0"
  using fl_nonneg [of "- x"] by (simp add: fl_minus)

text \<open>Rounding is monotone on all of the rationals.\<close>

lemma fl_mono_all:
  assumes "x \<le> y"
  shows "fl x \<le> fl y"
proof (cases "0 \<le> x")
  case True
  thus ?thesis using assms by (rule fl_mono)
next
  case False
  show ?thesis
  proof (cases "0 \<le> y")
    case True
    with False fl_nonpos [of x] fl_nonneg [of y] show ?thesis by simp
  next
    case False
    hence "0 \<le> - y" "- y \<le> - x" using assms by simp_all
    from fl_mono [OF this] show ?thesis by (simp add: fl_minus)
  qed
qed

text \<open>A number with a significand below \<open>2 ^ 53\<close> is a double: rounding leaves it.\<close>

lemma fl_representable:
  assumes "0 \<le> m" and "m < 2 ^ 53"
  shows "fl (of_int m * 2 powi e) = of_int m * 2 powi e"
proof (cases "m = 0")
  case False
  with assms have mpos: "0 < (of_int m :: rat)" by simp
  define k where "k = ilog2 (of_int m)"
  note b = ilog2_bounds [OF mpos, folded k_def]
  have "(2::rat) powi k < 2 powi 53"
  proof -
    have "(of_int m :: rat) < of_int (2 ^ 53)" using assms(2) by (simp only: of_int_less_iff)
    with b show ?thesis by simp
  qed
  hence k52: "k \<le> 52"
    using two_powi_mono [of 53 k] by (cases "53 \<le> k") simp_all
  let ?x = "of_int m * (2::rat) powi e"
  have lo: "2 powi (k + e) \<le> ?x"
    using b by (simp add: power_int_add)
  have hi: "?x < 2 powi (k + e + 1)"
    using b by (simp add: power_int_add)
  have "?x / 2 powi (k + e - 52) = of_int m * 2 powi (52 - k)"
    by (simp add: power_int_diff power_int_add field_simps)
  also have "\<dots> = of_int (m * 2 ^ nat (52 - k))"
    using k52 by (simp add: power_int_def)
  finally have "rne (?x / 2 powi (k + e - 52)) = m * 2 ^ nat (52 - k)"
    by (simp only: rne_of_int)
  hence "fl ?x = of_int (m * 2 ^ nat (52 - k)) * 2 powi (k + e - 52)"
    by (simp only: fl_binade [OF lo hi])
  also have "\<dots> = of_int m * (2 powi (52 - k) * 2 powi (k + e - 52))"
    using k52 by (simp add: power_int_def)
  also have "2 powi (52 - k) * (2::rat) powi (k + e - 52) = 2 powi e"
    by (simp add: power_int_add [symmetric])
  finally show ?thesis .
qed simp

lemma fl_of_int: "0 \<le> m \<Longrightarrow> m < 2 ^ 53 \<Longrightarrow> fl (of_int m) = of_int m"
  using fl_representable [of m 0] by simp

lemma fl_of_nat: "n < 2 ^ 53 \<Longrightarrow> fl (of_nat n) = of_nat n"
  using fl_of_int [of "int n"] by simp


lemma rne_cert: "of_int k - 1 / 2 < y \<Longrightarrow> y < of_int k + 1 / 2 \<Longrightarrow> rne y = k"
proof -
  assume a: "of_int k - 1 / 2 < y" and b: "y < of_int k + 1 / 2"
  from rne_bounds [of y] a b have "(of_int (rne y) :: rat) < of_int k + 1" "(of_int k :: rat) < of_int (rne y) + 1"
    by linarith+
  hence "rne y < k + 1" "k < rne y + 1"
    by (metis of_int_1 of_int_add of_int_less_iff)+
  thus ?thesis by simp
qed

lemma fl_cert:
  assumes "2 powi e \<le> x" and "x < 2 powi (e + 1)"
    and "of_int k - 1 / 2 < x / 2 powi (e - 52)" and "x / 2 powi (e - 52) < of_int k + 1 / 2"
  shows "fl x = of_int k * 2 powi (e - 52)"
  by (simp only: fl_binade [OF assms(1,2)] rne_cert [OF assms(3,4)])

lemma rne_tie: "y = of_int f + 1 / 2 \<Longrightarrow> rne y = (if even f then f else f + 1)"
proof -
  assume y: "y = of_int f + 1 / 2"
  have "\<lfloor>y\<rfloor> = f" unfolding y by linarith
  thus ?thesis by (simp add: rne_def Let_def y)
qed

lemma fl_cert_tie:
  assumes "2 powi e \<le> x" and "x < 2 powi (e + 1)"
    and "x / 2 powi (e - 52) = of_int f + 1 / 2"
  shows "fl x = of_int (if even f then f else f + 1) * 2 powi (e - 52)"
  by (simp only: fl_binade [OF assms(1,2)] rne_tie [OF assms(3)])

lemma fl_numeral: "(numeral n :: int) < 2 ^ 53 \<Longrightarrow> fl (numeral n) = numeral n"
  using fl_of_int [of "numeral n"] by simp

lemma fl_one [simp]: "fl 1 = 1"
  using fl_of_int [of 1] by simp

section \<open>Properties of the loops\<close>

lemma for_fill_done: "\<not> i < n \<Longrightarrow> for_fill body n i (arr, k) = (arr, k)"
  by (subst for_fill.simps) simp

lemma for_fill_step:
  "i < n \<Longrightarrow> for_fill body n i (arr, k) =
     for_fill body n (Suc i) (arr[i := fst (body i k)], snd (body i k))"
  by (subst for_fill.simps) (simp add: case_prod_beta)

lemma for_fill_length: "length (fst (for_fill body n i (arr, k))) = length arr"
proof (induction "n - i" arbitrary: i arr k)
  case 0
  thus ?case by (simp add: for_fill_done)
next
  case (Suc d)
  hence "i < n" and "d = n - Suc i" by simp_all
  with Suc.hyps(1) [of "Suc i"] show ?case by (simp add: for_fill_step)
qed

lemma for_fill_result:
  assumes step: "\<And>i k. snd (body i k) = k + c"
  shows "snd (for_fill body n i (arr, k)) = k + c * (n - i) \<and>
         (\<forall>j < length arr. fst (for_fill body n i (arr, k)) ! j =
            (if i \<le> j \<and> j < n then fst (body j (k + c * (j - i))) else arr ! j))"
proof (induction "n - i" arbitrary: i arr k)
  case 0
  hence "\<not> i < n" by simp
  thus ?case by (auto simp: for_fill_done)
next
  case (Suc d)
  hence lt: "i < n" and d: "d = n - Suc i" by simp_all
  let ?arr = "arr[i := fst (body i k)]"
  note IH = Suc.hyps(1) [OF d, of ?arr "k + c"]
  have unfold: "for_fill body n i (arr, k) = for_fill body n (Suc i) (?arr, k + c)"
    using lt by (simp add: for_fill_step step)
  have a: "k + c + c * (m - Suc i) = k + c * (m - i)" if "i < m" for m
  proof -
    have "m - i = Suc (m - Suc i)" using that by simp
    thus ?thesis by (simp only: mult_Suc_right add.assoc)
  qed
  have e: "fst (for_fill body n i (arr, k)) ! j =
            (if i \<le> j \<and> j < n then fst (body j (k + c * (j - i))) else arr ! j)"
    if j: "j < length arr" for j
  proof (cases "j = i")
    case True
    with IH j lt show ?thesis unfolding unfold by simp
  next
    case False
    show ?thesis
    proof (cases "i \<le> j \<and> j < n")
      case True
      with False have ij: "i < j" by simp
      have "fst (for_fill body n (Suc i) (?arr, k + c)) ! j
              = fst (body j (k + c + c * (j - Suc i)))"
        using IH j True ij by simp
      thus ?thesis unfolding unfold a [OF ij] using True by simp
    next
      case False
      with IH j \<open>j \<noteq> i\<close> show ?thesis unfolding unfold by auto
    qed
  qed
  have "snd (for_fill body n i (arr, k)) = k + c + c * (n - Suc i)"
    using IH unfolding unfold by simp
  hence "snd (for_fill body n i (arr, k)) = k + c * (n - i)"
    unfolding a [OF lt] .
  thus ?case using e by blast
qed

section \<open>The primary payload\<close>

lemma prt_body_snd:
  "snd (prt_body P cm prtSize numPages pageWidth i k) = k + (if cm = BlackWhite then 0 else 1)"
  by (simp add: prt_body_def)

lemma length_prtImageData:
  "length (prtImageData P s pageWidth pageHeight numPages)
     = nat (prtImageDataSize s pageWidth pageHeight numPages)"
  by (simp add: prtImageData_def prtImageData_fill_def Let_def for_fill_length)

lemma prtImageData_nth:
  assumes "i < nat (prtImageDataSize s pageWidth pageHeight numPages)"
  shows "prtImageData P s pageWidth pageHeight numPages ! i
           = prt_pixel P (colorMode s) (prtImageDataSize s pageWidth pageHeight numPages)
               numPages pageWidth i
               (Math_random P (if colorMode s = BlackWhite then 0 else i))"
proof -
  let ?n = "prtImageDataSize s pageWidth pageHeight numPages"
  let ?body = "prt_body P (colorMode s) ?n numPages pageWidth"
  let ?c = "if colorMode s = BlackWhite then 0 else 1 :: nat"
  have "fst (for_fill ?body (nat ?n) 0 (replicate (nat ?n) 0, 0)) ! i
          = (if 0 \<le> i \<and> i < nat ?n then fst (?body i (0 + ?c * (i - 0)))
             else replicate (nat ?n) 0 ! i)"
    using for_fill_result [of ?body ?c "nat ?n" 0 "replicate (nat ?n) 0" 0] assms
    by (simp only: prt_body_snd length_replicate)
  thus ?thesis
    using assms by (simp add: prtImageData_def prtImageData_fill_def Let_def prt_body_def)
qed

lemma prtImageData_draws:
  "snd (prtImageData_fill P s pageWidth pageHeight numPages)
     = (if colorMode s = BlackWhite then 0
        else nat (prtImageDataSize s pageWidth pageHeight numPages))"
  using for_fill_result [of "prt_body P (colorMode s) (prtImageDataSize s pageWidth pageHeight numPages) numPages pageWidth"
      "if colorMode s = BlackWhite then 0 else 1"
      "nat (prtImageDataSize s pageWidth pageHeight numPages)" 0
      "replicate (nat (prtImageDataSize s pageWidth pageHeight numPages)) 0" 0]
  by (simp add: prtImageData_fill_def Let_def prt_body_snd)

lemma prt_pixel_BlackWhite:
  "prt_pixel P BlackWhite prtSize numPages pageWidth i u
     = (if 128 < threshold P (row prtSize numPages pageWidth i) (col prtSize numPages pageWidth i)
        then 255 else 0)"
  by (simp add: prt_pixel_def Let_def)

text \<open>
  The body of the payload loop divides by \<^verbatim>\<open>prtImageDataSize / pdf.numPages\<close> and by
  \<^verbatim>\<open>pageWidth\<close>. It runs only when the payload is not empty, and then both divisors are
  positive: no iteration meets a division by zero.
\<close>

lemma payload_divisors_positive:
  assumes "i < length (prtImageData P s pageWidth pageHeight numPages)"
  shows "0 < pageWidth" and "0 < numPages"
    and "0 < fl (of_int (prtImageDataSize s pageWidth pageHeight numPages) / of_nat numPages)"
proof -
  have pos: "0 < prtImageDataSize s pageWidth pageHeight numPages"
    using assms by (simp add: length_prtImageData)
  have z: "prtImageDataSize s pageWidth pageHeight numPages = 0"
    if "pageWidth = 0 \<or> numPages = 0"
    using that
    by (auto simp: prtImageDataSize_def compressedImageSize_def baseImageSize_def)
  show w: "0 < pageWidth" using pos z by (cases "pageWidth = 0") simp_all
  show n: "0 < numPages" using pos z by (cases "numPages = 0") simp_all
  have "0 < (of_int (prtImageDataSize s pageWidth pageHeight numPages) :: rat) / of_nat numPages"
    using pos n by simp
  thus "0 < fl (of_int (prtImageDataSize s pageWidth pageHeight numPages) / of_nat numPages)"
    by (rule fl_pos)
qed

lemma length_prtHeader_lines: "length (prtHeader_lines P s pageWidth pageHeight numPages) = 21"
  by (simp add: prtHeader_lines_def)

section \<open>The scenario\<close>

lemma floor_rat_numeral_div:
  "\<lfloor>numeral a / numeral b :: rat\<rfloor> = numeral a div numeral b"
  using floor_divide_of_int_eq [of "numeral a" "numeral b", where ?'a = rat] by simp

lemma ceiling_rat_numeral_div:
  "\<lceil>numeral a / numeral b :: rat\<rceil> = - (- numeral a div numeral b)"
  using floor_divide_of_int_eq [of "- numeral a" "numeral b", where ?'a = rat]
  by (simp add: ceiling_def)

lemma fl_4_5: "fl (4 / 5) = 3602879701896397 / 4503599627370496"
  using fl_cert [of "- 1" "4 / 5" 7205759403792794] by simp

lemma fl_3_10: "fl (3 / 10) = 5404319552844595 / 18014398509481984"
  using fl_cert [of "- 2" "3 / 10" 5404319552844595] by simp

lemma fl_scenario_1: "fl (900719925474099 / 4503599627370496) = 900719925474099 / 4503599627370496"
  using fl_cert [of "- 3" "900719925474099 / 4503599627370496" 7205759403792792] by simp

lemma fl_scenario_2: "fl (9007199254740991 / 18014398509481984) = 9007199254740991 / 18014398509481984"
  using fl_cert [of "- 2" "9007199254740991 / 18014398509481984" 9007199254740991] by simp

lemma fl_scenario_3: "fl (1052716412897853323125 / 2251799813685248) = 8031588843519999 / 17179869184"
  using fl_cert [of 18 "1052716412897853323125 / 2251799813685248" 8031588843519999] by simp


lemma compressedImageSize_scenario: "compressedImageSize scenario 850 1100 1 = 467499"
proof -
  have b: "baseImageSize scenario 850 1100 1 = 935000"
    by (simp add: baseImageSize_def bytesPerPixel_def scenario_def fl_numeral)
  have c: "compressionRatio scenario = 3602879701896397 / 4503599627370496"
    by (simp add: compressionRatio_def scenario_def fl_4_5)
  show ?thesis
    unfolding compressedImageSize_def b c
    by (simp add: fl_3_10 fl_scenario_1 fl_scenario_2 fl_scenario_3 floor_rat_numeral_div)
qed


lemma prtImageData_BlackWhite:
  assumes "colorMode s = BlackWhite"
  shows "set (prtImageData P s pageWidth pageHeight numPages) \<subseteq> {0, 255}"
proof
  fix b assume "b \<in> set (prtImageData P s pageWidth pageHeight numPages)"
  then obtain i where i: "i < length (prtImageData P s pageWidth pageHeight numPages)"
    and b: "b = prtImageData P s pageWidth pageHeight numPages ! i"
    by (auto simp: in_set_conv_nth)
  from i have "i < nat (prtImageDataSize s pageWidth pageHeight numPages)"
    by (simp add: length_prtImageData)
  from prtImageData_nth [OF this, of P] assms b show "b \<in> {0, 255}"
    by (simp add: prt_pixel_BlackWhite)
qed

text \<open>
  C1 (as the specification states it, the length is 467500). In double precision
  \<^verbatim>\<open>1 - 80 / 100 + 0.3\<close> is \<open>1 / 2 - 1 / 2 ^ 54\<close>, the product with 935000 rounds to
  \<open>467500 - 1 / 2 ^ 34\<close>, and its floor is 467499: on the concrete host the primary
  payload of the scenario has 467499 bytes, not 467500.
\<close>

theorem C1_length_counterexample:
  "length (prtImageData host scenario 850 1100 1) = 467499 \<and>
   length (prtImageData host scenario 850 1100 1) \<noteq> 467500"
  unfolding length_prtImageData prtImageDataSize_def compressedImageSize_scenario by simp

text \<open>
  C1 (amended). For the geometry 850 x 1100 with one page and the settings 600 dpi,
  BlackWhite, compression 80, on every platform: the primary payload has 467499 bytes,
  the primary header has the lines \<^verbatim>\<open>DPI:600\<close>, \<^verbatim>\<open>COLOR_MODE:BlackWhite\<close> and \<^verbatim>\<open>PAGES:1\<close>,
  and every byte of the primary payload is 0 or 255.
\<close>

theorem C1_scenario:
  "length (prtImageData P scenario 850 1100 1) = 467499 \<and>
   ''DPI:600'' \<in> set (prtHeader_lines P scenario 850 1100 1) \<and>
   ''COLOR_MODE:BlackWhite'' \<in> set (prtHeader_lines P scenario 850 1100 1) \<and>
   ''PAGES:1'' \<in> set (prtHeader_lines P scenario 850 1100 1) \<and>
   set (prtImageData P scenario 850 1100 1) \<subseteq> {0, 255}"
proof -
  have "length (prtImageData P scenario 850 1100 1) = 467499"
    unfolding length_prtImageData prtImageDataSize_def compressedImageSize_scenario by simp
  moreover have m: "prtHeader_lines P scenario 850 1100 1 ! k
                      \<in> set (prtHeader_lines P scenario 850 1100 1)" if "k < 21" for k
    using that by (simp add: length_prtHeader_lines)
  have "prtHeader_lines P scenario 850 1100 1 ! 4 = ''DPI:600''"
    "prtHeader_lines P scenario 850 1100 1 ! 5 = ''COLOR_MODE:BlackWhite''"
    "prtHeader_lines P scenario 850 1100 1 ! 7 = ''PAGES:1''"
    by (simp_all add: prtHeader_lines_def scenario_def ColorMode_string_def Number_toString.simps)
  with m [of 4] m [of 5] m [of 7]
  have "''DPI:600'' \<in> set (prtHeader_lines P scenario 850 1100 1)"
    "''COLOR_MODE:BlackWhite'' \<in> set (prtHeader_lines P scenario 850 1100 1)"
    "''PAGES:1'' \<in> set (prtHeader_lines P scenario 850 1100 1)"
    by simp_all
  moreover have "set (prtImageData P scenario 850 1100 1) \<subseteq> {0, 255}"
    by (rule prtImageData_BlackWhite) (simp add: scenario_def)
  ultimately show ?thesis by simp
qed

theorem C1_scenario_witness:
  "prtImageData host scenario 850 1100 1 ! 0 \<in> set (prtImageData host scenario 850 1100 1) \<and>
   prtImageData host scenario 850 1100 1 ! 0 \<in> {0, 255}"
proof -
  have "0 < length (prtImageData host scenario 850 1100 1)"
    using C1_scenario [of host] by simp
  hence "prtImageData host scenario 850 1100 1 ! 0 \<in> set (prtImageData host scenario 850 1100 1)"
    by (rule nth_mem)
  with C1_scenario [of host] show ?thesis by blast
qed

section \<open>Assembly\<close>

lemma bind_err_Inr [simp]: "bind_err (Inr v) f = f v"
  by (simp add: bind_err_def)

lemma bind_err_Inl [simp]: "bind_err (Inl e) f = Inl e"
  by (simp add: bind_err_def)

lemma bind_err_eq_Inr:
  "bind_err m f = Inr r \<longleftrightarrow> (\<exists>v. m = Inr v \<and> f v = Inr r)"
  by (cases m) simp_all

lemma ArrayBuffer_new_eq_Inr:
  "ArrayBuffer_new n = Inr b \<longleftrightarrow> int n \<le> 2 ^ 53 - 1 \<and> b = replicate n 0"
  by (auto simp: ArrayBuffer_new_def Uint8Array_new_def)

lemma Uint8Array_new_eq_Inr:
  "Uint8Array_new (Some v) = Inr b \<longleftrightarrow> 0 \<le> v \<and> v \<le> 2 ^ 53 - 1 \<and> b = replicate (nat v) 0"
  by (auto simp: Uint8Array_new_def)

lemma set_three:
  fixes h p c :: "byte list"
  defines "n \<equiv> length h + length p + length c"
  shows "TypedArray_set (replicate n 0) h 0 = Inr (h @ replicate (length p + length c) 0)"
    and "TypedArray_set (h @ replicate (length p + length c) 0) p (length h)
           = Inr (h @ p @ replicate (length c) 0)"
    and "TypedArray_set (h @ p @ replicate (length c) 0) c (length h + length p)
           = Inr (h @ p @ c)"
  by (simp_all add: TypedArray_set_def n_def)

lemma prtResult_eq:
  "prtResult h p c =
     (if int (length h + length p + length c) \<le> 2 ^ 53 - 1 then Inr (h @ p @ c)
      else Inl RangeError)"
proof (cases "int (length h + length p + length c) \<le> 2 ^ 53 - 1")
  case True
  hence "ArrayBuffer_new (length h + length p + length c)
           = Inr (replicate (length h + length p + length c) 0)"
    by (simp add: ArrayBuffer_new_eq_Inr)
  thus ?thesis using True
    by (simp add: prtResult_def set_three)
next
  case False
  hence "ArrayBuffer_new (length h + length p + length c) = Inl RangeError"
    by (simp add: ArrayBuffer_new_def Uint8Array_new_def)
  thus ?thesis using False by (simp add: prtResult_def)
qed

lemma pvwResult_eq:
  "pvwResult h p =
     (if int (length h + length p) \<le> 2 ^ 53 - 1 then Inr (h @ p) else Inl RangeError)"
proof (cases "int (length h + length p) \<le> 2 ^ 53 - 1")
  case True
  hence "ArrayBuffer_new (length h + length p) = Inr (replicate (length h + length p) 0)"
    by (simp add: ArrayBuffer_new_eq_Inr)
  thus ?thesis using True set_three(1,2) [of h p "[]"]
    by (simp add: pvwResult_def)
next
  case False
  hence "ArrayBuffer_new (length h + length p) = Inl RangeError"
    by (simp add: ArrayBuffer_new_def Uint8Array_new_def)
  thus ?thesis using False by (simp add: pvwResult_def)
qed

lemma generateRIPFiles_Inr:
  assumes "generateRIPFiles P s pageWidth pageHeight numPages = Inr (prtData, pvwData)"
  shows "prtData = prtHeader P s pageWidth pageHeight numPages
                     @ prtImageData P s pageWidth pageHeight numPages
                     @ controlData P s pageWidth pageHeight numPages"
    and "pvwData = pvwHeader P s pageWidth pageHeight numPages
                     @ pvwImageData P s pageWidth pageHeight numPages"
    and "0 \<le> prtImageDataSize s pageWidth pageHeight numPages"
    and "prtImageDataSize s pageWidth pageHeight numPages \<le> 2 ^ 53 - 1"
  using assms
  by (auto simp: generateRIPFiles_def bind_err_eq_Inr prtResult_eq pvwResult_eq
        Uint8Array_new_eq_Inr split: if_splits)


lemma generateRIPFiles_ok:
  assumes "0 \<le> prtImageDataSize s pageWidth pageHeight numPages"
    and "pvwImageDataSize s pageWidth pageHeight numPages = Some v"
    and "0 \<le> v"
    and "0 \<le> controlDataSize (prtImageDataSize s pageWidth pageHeight numPages)"
    and "int (length (prtHeader P s pageWidth pageHeight numPages)
           + length (prtImageData P s pageWidth pageHeight numPages)
           + length (controlData P s pageWidth pageHeight numPages)) \<le> 2 ^ 53 - 1"
    and "int (length (pvwHeader P s pageWidth pageHeight numPages)
           + length (pvwImageData P s pageWidth pageHeight numPages)) \<le> 2 ^ 53 - 1"
  shows "generateRIPFiles P s pageWidth pageHeight numPages
           = Inr (prtHeader P s pageWidth pageHeight numPages
                    @ prtImageData P s pageWidth pageHeight numPages
                    @ controlData P s pageWidth pageHeight numPages,
                  pvwHeader P s pageWidth pageHeight numPages
                    @ pvwImageData P s pageWidth pageHeight numPages)"
proof -
  have l1: "length (prtImageData P s pageWidth pageHeight numPages)
              = nat (prtImageDataSize s pageWidth pageHeight numPages)"
    by (simp add: prtImageData_def prtImageData_fill_def Let_def for_fill_length)
  have l2: "length (controlData P s pageWidth pageHeight numPages)
              = nat (controlDataSize (prtImageDataSize s pageWidth pageHeight numPages))"
    by (simp add: controlData_def controlData_fill_def Let_def for_fill_length)
  have l3: "length (pvwImageData P s pageWidth pageHeight numPages) = nat v"
    by (simp add: pvwImageData_def pvwImageData_of_def assms(2) for_fill_length)
  have "prtImageDataSize s pageWidth pageHeight numPages \<le> 2 ^ 53 - 1"
    "controlDataSize (prtImageDataSize s pageWidth pageHeight numPages) \<le> 2 ^ 53 - 1"
    "v \<le> 2 ^ 53 - 1"
    using assms(1,3,4,5,6) unfolding l1 l2 l3 by linarith+
  thus ?thesis
    using assms
    by (simp add: generateRIPFiles_def Uint8Array_new_def prtResult_eq pvwResult_eq)
qed

text \<open>
  C8. Whenever the conversion returns, the primary buffer is the primary header followed
  by the primary payload and the control data, the preview buffer is the preview header
  followed by the preview payload (no control data), and the lengths are the sums of the
  lengths of the parts, for every colour mode and geometry.
\<close>

theorem C8_assemble:
  assumes "generateRIPFiles P s pageWidth pageHeight numPages = Inr (prtData, pvwData)"
  shows "prtData = prtHeader P s pageWidth pageHeight numPages
                     @ prtImageData P s pageWidth pageHeight numPages
                     @ controlData P s pageWidth pageHeight numPages \<and>
         pvwData = pvwHeader P s pageWidth pageHeight numPages
                     @ pvwImageData P s pageWidth pageHeight numPages \<and>
         length prtData = length (prtHeader P s pageWidth pageHeight numPages)
                     + length (prtImageData P s pageWidth pageHeight numPages)
                     + length (controlData P s pageWidth pageHeight numPages) \<and>
         length pvwData = length (pvwHeader P s pageWidth pageHeight numPages)
                     + length (pvwImageData P s pageWidth pageHeight numPages)"
  using generateRIPFiles_Inr(1,2) [OF assms] by simp

section \<open>A small conversion\<close>

lemma fl_1_10: "fl (1 / 10) = 3602879701896397 / 36028797018963968"
  using fl_cert [of "- 4" "1 / 10" 7205759403792794] by simp

lemma fl_9_10: "fl (9 / 10) = 8106479329266893 / 9007199254740992"
  using fl_cert [of "- 1" "9 / 10" 8106479329266893] by simp

lemma fl_small_1: "fl (9007199254740991 / 1125899906842624) = 9007199254740991 / 1125899906842624"
  using fl_cert [of 2 "9007199254740991 / 1125899906842624" 9007199254740991] by simp

lemma fl_small_2: "fl (8106479329266893 / 2251799813685248) = 8106479329266893 / 2251799813685248"
  using fl_cert [of 1 "8106479329266893 / 2251799813685248" 8106479329266893] by simp

lemma fl_small_3: "fl (25220157913274779 / 36028797018963968) = 6305039478318695 / 9007199254740992"
  using fl_cert [of "- 1" "25220157913274779 / 36028797018963968" 6305039478318695] by simp


lemma fl_1_2: "fl (1 / 2) = 1 / 2"
  using fl_representable [of 1 "- 1"] by simp

lemma prtImageDataSize_small: "prtImageDataSize scenario 4 4 1 = 7"
proof -
  have b: "baseImageSize scenario 4 4 1 = 16"
    by (simp add: baseImageSize_def bytesPerPixel_def scenario_def fl_numeral)
  have c: "compressionRatio scenario = 3602879701896397 / 4503599627370496"
    by (simp add: compressionRatio_def scenario_def fl_4_5)
  show ?thesis
    unfolding prtImageDataSize_def compressedImageSize_def b c
    by (simp add: fl_3_10 fl_scenario_1 fl_scenario_2 fl_small_1 floor_rat_numeral_div)
qed

lemma previewWidth_small: "previewWidth scenario 4 = Some 2"
  by (simp add: previewWidth_def previewDPI_def scenario_def fl_1_2 fl_numeral)

lemma previewHeight_small: "previewHeight scenario 4 = Some 2"
  by (simp add: previewHeight_def previewDPI_def scenario_def fl_1_2 fl_numeral)

lemma pvwImageDataSize_small: "pvwImageDataSize scenario 4 4 1 = Some 3"
  unfolding pvwImageDataSize_def previewWidth_small previewHeight_small
  by (simp add: bytesPerPixel_def scenario_def fl_numeral fl_9_10 fl_small_2 floor_rat_numeral_div)

lemma controlDataSize_small: "controlDataSize 7 = 0"
  by (simp add: controlDataSize_def fl_1_10 fl_small_3 floor_rat_numeral_div)

lemma generateRIPFiles_small:
  "generateRIPFiles host scenario 4 4 1
     = Inr (prtHeader host scenario 4 4 1 @ prtImageData host scenario 4 4 1
              @ controlData host scenario 4 4 1,
            pvwHeader host scenario 4 4 1 @ pvwImageData host scenario 4 4 1)"
proof (rule generateRIPFiles_ok [where v = 3])
  show "pvwImageDataSize scenario 4 4 1 = Some 3" by (rule pvwImageDataSize_small)
  have l1: "length (prtImageData host scenario 4 4 1) = 7"
    unfolding length_prtImageData prtImageDataSize_small by simp
  have l2: "length (controlData host scenario 4 4 1) = 0"
    unfolding controlData_def controlData_fill_def Let_def prtImageDataSize_small
      controlDataSize_small
    by (simp add: for_fill_length)
  have l3: "length (pvwImageData host scenario 4 4 1) = 3"
    unfolding pvwImageData_def pvwImageData_of_def pvwImageDataSize_small
    by (simp add: for_fill_length)
  have h1: "length (prtHeader host scenario 4 4 1) \<le> 1000"
    by (simp add: prtHeader_def prtHeader_lines_def TextEncoder_encode_def host_def scenario_def
          ColorMode_string_def bytesPerPixel_def Number_toString.simps)
  have h2: "length (pvwHeader host scenario 4 4 1) \<le> 1000"
    by (simp add: pvwHeader_def pvwHeader_lines_def TextEncoder_encode_def host_def scenario_def
          ColorMode_string_def bytesPerPixel_def Number_toString.simps previewDPI_def
          previewWidth_small [unfolded scenario_def] previewHeight_small [unfolded scenario_def]
          Number_toString_opt_def)
  show "int (length (prtHeader host scenario 4 4 1) + length (prtImageData host scenario 4 4 1)
          + length (controlData host scenario 4 4 1)) \<le> 2 ^ 53 - 1"
    using h1 unfolding l1 l2 by simp
  show "int (length (pvwHeader host scenario 4 4 1) + length (pvwImageData host scenario 4 4 1))
          \<le> 2 ^ 53 - 1"
    using h2 unfolding l3 by simp
  show "0 \<le> prtImageDataSize scenario 4 4 1"
    unfolding prtImageDataSize_small by simp
  show "0 \<le> controlDataSize (prtImageDataSize scenario 4 4 1)"
    unfolding prtImageDataSize_small controlDataSize_small by simp
qed simp

theorem C8_assemble_witness:
  "generateRIPFiles host scenario 4 4 1
     = Inr (prtHeader host scenario 4 4 1 @ prtImageData host scenario 4 4 1
              @ controlData host scenario 4 4 1,
            pvwHeader host scenario 4 4 1 @ pvwImageData host scenario 4 4 1) \<and>
   length (prtHeader host scenario 4 4 1 @ prtImageData host scenario 4 4 1
              @ controlData host scenario 4 4 1)
     = length (prtHeader host scenario 4 4 1) + length (prtImageData host scenario 4 4 1)
         + length (controlData host scenario 4 4 1) \<and>
   length (pvwHeader host scenario 4 4 1 @ pvwImageData host scenario 4 4 1)
     = length (pvwHeader host scenario 4 4 1) + length (pvwImageData host scenario 4 4 1)"
  using C8_assemble [OF generateRIPFiles_small] generateRIPFiles_small by simp

section \<open>The BlackWhite payload\<close>

text \<open>
  C9. In BlackWhite mode the byte at every index \<open>i\<close> of the primary payload is 255 when
  \<^verbatim>\<open>sin(row * 0.1) * cos(col * 0.1) * 127 + 128\<close>, evaluated in double precision at the row
  and column derived from \<open>i\<close>, exceeds 128, and 0 otherwise; so it is 0 or 255.
\<close>

theorem C9_BlackWhite:
  assumes "colorMode s = BlackWhite"
    and "i < length (prtImageData P s pageWidth pageHeight numPages)"
  shows "(let r = row (prtImageDataSize s pageWidth pageHeight numPages) numPages pageWidth i;
              c = col (prtImageDataSize s pageWidth pageHeight numPages) numPages pageWidth i
          in prtImageData P s pageWidth pageHeight numPages ! i
               = (if 128 < fl (fl (fl (Math_sin P (fl (of_int r * fl (1 / 10)))
                                        * Math_cos P (fl (c * fl (1 / 10)))) * 127) + 128)
                  then 255 else 0)) \<and>
         prtImageData P s pageWidth pageHeight numPages ! i \<in> {0, 255}"
proof -
  from assms(2) have "i < nat (prtImageDataSize s pageWidth pageHeight numPages)"
    by (simp add: length_prtImageData)
  from prtImageData_nth [OF this, of P] assms(1) show ?thesis
    by (simp add: prt_pixel_BlackWhite threshold_def Let_def)
qed

lemma pageOffset_0 [simp]: "pageOffset prtSize numPages 0 = 0"
  by (simp add: pageOffset_def js_rem_def)

lemma row_0 [simp]: "row prtSize numPages pageWidth 0 = 0"
  by (simp add: row_def)

lemma col_0 [simp]: "col prtSize numPages pageWidth 0 = 0"
  by (simp add: col_def js_rem_def)

lemma sin_poly_0 [simp]: "sin_poly 0 = 0"
  by (simp add: sin_poly_def)

lemma cos_poly_0 [simp]: "cos_poly 0 = 1"
  by (simp add: cos_poly_def)

theorem C9_BlackWhite_witness:
  "colorMode scenario = BlackWhite \<and>
   0 < length (prtImageData host scenario 850 1100 1) \<and>
   prtImageData host scenario 850 1100 1 ! 0 = 0 \<and>
   prtImageData host scenario 850 1100 1 ! 0 \<in> {0, 255}"
proof -
  have c: "colorMode scenario = BlackWhite" by (simp add: scenario_def)
  have l: "0 < length (prtImageData host scenario 850 1100 1)"
    unfolding length_prtImageData prtImageDataSize_def compressedImageSize_scenario by simp
  from C9_BlackWhite [OF c l] c l show ?thesis
    by (simp add: Let_def host_def fl_numeral)
qed

section \<open>The CMYK and Grayscale payloads\<close>

text \<open>
  C10. In CMYK mode the byte stored at an index is a function of the row, the column and
  the random draw: the channel \<open>i mod 4\<close> is computed and never used. Two indices of the
  payload with the same row and column and equal draws hold equal bytes, whatever their
  channels.
\<close>

theorem C10_channel_unused:
  assumes "colorMode s = CMYK"
    and "i < length (prtImageData P s pageWidth pageHeight numPages)"
    and "j < length (prtImageData P s pageWidth pageHeight numPages)"
    and "row (prtImageDataSize s pageWidth pageHeight numPages) numPages pageWidth i
           = row (prtImageDataSize s pageWidth pageHeight numPages) numPages pageWidth j"
    and "col (prtImageDataSize s pageWidth pageHeight numPages) numPages pageWidth i
           = col (prtImageDataSize s pageWidth pageHeight numPages) numPages pageWidth j"
    and "Math_random P i = Math_random P j"
  shows "prtImageData P s pageWidth pageHeight numPages ! i
           = prtImageData P s pageWidth pageHeight numPages ! j"
proof -
  from assms(2,3)
  have "i < nat (prtImageDataSize s pageWidth pageHeight numPages)"
    "j < nat (prtImageDataSize s pageWidth pageHeight numPages)"
    by (simp_all add: length_prtImageData)
  from prtImageData_nth [OF this(1), of P] prtImageData_nth [OF this(2), of P] assms(1,4,5,6)
  show ?thesis
    by (simp add: prt_pixel_def Let_def)
qed

lemma fl_cmyk_1: "fl (14411518807585587 / 18014398509481984) = 3602879701896397 / 4503599627370496"
  using fl_cert_tie [of "- 1" "14411518807585587 / 18014398509481984" 7205759403792793] by simp

lemma fl_cmyk_2: "fl (3602879701896397 / 562949953421312) = 3602879701896397 / 562949953421312"
  using fl_cert [of 2 "3602879701896397 / 562949953421312" 7205759403792794] by simp

lemma prtImageDataSize_cmyk_small: "prtImageDataSize cmyk_settings 1 1 2 = 6"
proof -
  have b: "baseImageSize cmyk_settings 1 1 2 = 8"
    by (simp add: baseImageSize_def bytesPerPixel_def cmyk_settings_def fl_numeral)
  have c: "compressionRatio cmyk_settings = 1 / 2"
    by (simp add: compressionRatio_def cmyk_settings_def fl_1_2)
  show ?thesis
    unfolding prtImageDataSize_def compressedImageSize_def b c
    by (simp add: fl_1_2 fl_3_10 fl_cmyk_1 fl_cmyk_2 floor_rat_numeral_div)
qed

theorem C10_channel_unused_witness:
  "colorMode cmyk_settings = CMYK \<and>
   0 < length (prtImageData host cmyk_settings 1 1 2) \<and>
   3 < length (prtImageData host cmyk_settings 1 1 2) \<and>
   row (prtImageDataSize cmyk_settings 1 1 2) 2 1 0 = row (prtImageDataSize cmyk_settings 1 1 2) 2 1 3 \<and>
   col (prtImageDataSize cmyk_settings 1 1 2) 2 1 0 = col (prtImageDataSize cmyk_settings 1 1 2) 2 1 3 \<and>
   Math_random host 0 = Math_random host 3 \<and>
   channel 0 \<noteq> channel 3 \<and>
   prtImageData host cmyk_settings 1 1 2 ! 0 = prtImageData host cmyk_settings 1 1 2 ! 3"
proof -
  have c: "colorMode cmyk_settings = CMYK" by (simp add: cmyk_settings_def)
  have l: "0 < length (prtImageData host cmyk_settings 1 1 2)"
    "3 < length (prtImageData host cmyk_settings 1 1 2)"
    unfolding length_prtImageData prtImageDataSize_cmyk_small by simp_all
  have po: "pageOffset 6 2 3 = 0"
    by (simp add: pageOffset_def js_rem_def fl_numeral)
  have r: "row (prtImageDataSize cmyk_settings 1 1 2) 2 1 0
             = row (prtImageDataSize cmyk_settings 1 1 2) 2 1 3"
    unfolding prtImageDataSize_cmyk_small by (simp add: row_def po)
  have co: "col (prtImageDataSize cmyk_settings 1 1 2) 2 1 0
             = col (prtImageDataSize cmyk_settings 1 1 2) 2 1 3"
    unfolding prtImageDataSize_cmyk_small by (simp add: col_def po js_rem_def)
  have m: "Math_random host 0 = Math_random host 3" by (simp add: host_def)
  have ch: "channel 0 \<noteq> channel 3" by (simp add: channel_def)
  from C10_channel_unused [OF c l r co m] c l r co m ch show ?thesis by simp
qed

lemma fl_1_100: "fl (1 / 100) = 5764607523034235 / 576460752303423488"
  using fl_cert [of "- 7" "1 / 100" 5764607523034235] by simp

lemma fl_2_5: "fl (2 / 5) = 3602879701896397 / 9007199254740992"
  using fl_cert [of "- 2" "2 / 5" 7205759403792794] by simp

lemma fl_c2_size: "fl (421086565159141399375 / 140737488355328) = 2992000"
  using fl_cert [of 21 "421086565159141399375 / 140737488355328" 6425271074816000] by simp

lemma fl_c2_arg: "fl (201761263306198225 / 144115188075855872) = 6305039478318695 / 4503599627370496"
  using fl_cert [of 0 "201761263306198225 / 144115188075855872" 6305039478318695] by simp

lemma fl_c2_sin: "fl (54508711442800108680373646870315633843508687353688291070434514494708028335921778451480551014455466612984489215135766091076472455813739697538558395 / 55313482125911487349792675915397665479982973340344957579285687378362055497212722081506673763656248363988183435807423599428718819067389305270829056) = 8876151097608925 / 9007199254740992"
  using fl_cert [of "- 1" "54508711442800108680373646870315633843508687353688291070434514494708028335921778451480551014455466612984489215135766091076472455813739697538558395 / 55313482125911487349792675915397665479982973340344957579285687378362055497212722081506673763656248363988183435807423599428718819067389305270829056" 8876151097608925] by simp

lemma fl_c2_p1: "fl (8876151097608925 / 9007199254740992) = 8876151097608925 / 9007199254740992"
  using fl_cert [of "- 1" "8876151097608925 / 9007199254740992" 8876151097608925] by simp

lemma fl_c2_p2: "fl (1127271189396333475 / 9007199254740992) = 8806806167158855 / 70368744177664"
  using fl_cert [of 6 "1127271189396333475 / 9007199254740992" 8806806167158855] by simp

lemma fl_c2_density: "fl (17814005421899847 / 70368744177664) = 2226750677737481 / 8796093022208"
  using fl_cert_tie [of 7 "17814005421899847 / 70368744177664" 8907002710949923] by simp

lemma fl_c2_m1: "fl (54043195528445955 / 144115188075855872) = 3 / 8"
  using fl_cert [of "- 2" "54043195528445955 / 144115188075855872" 6755399441055744] by simp

lemma fl_c2_factor: "fl (5291729562160333 / 4503599627370496) = 5291729562160333 / 4503599627370496"
  using fl_cert [of 0 "5291729562160333 / 4503599627370496" 5291729562160333] by simp

lemma fl_c2_value: "fl (11783362388943985099527005541173 / 39614081257132168796771975168) = 5232864092683081 / 17592186044416"
  using fl_cert [of 8 "11783362388943985099527005541173 / 39614081257132168796771975168" 5232864092683081] by simp

lemma prtImageDataSize_cmyk_page: "prtImageDataSize cmyk_settings 850 1100 1 = 2992000"
proof -
  have b: "baseImageSize cmyk_settings 850 1100 1 = 3740000"
    by (simp add: baseImageSize_def bytesPerPixel_def cmyk_settings_def fl_numeral)
  have c: "compressionRatio cmyk_settings = 1 / 2"
    by (simp add: compressionRatio_def cmyk_settings_def fl_1_2)
  show ?thesis
    unfolding prtImageDataSize_def compressedImageSize_def b c
    by (simp add: fl_1_2 fl_3_10 fl_cmyk_1 fl_c2_size)
qed

lemma row_cmyk_page: "row 2992000 1 850 119000 = 140"
  by (simp add: row_def pageOffset_def js_rem_def fl_numeral floor_rat_numeral_div)

lemma col_cmyk_page: "col 2992000 1 850 119000 = 0"
  by (simp add: col_def pageOffset_def js_rem_def fl_numeral floor_rat_numeral_div)

lemma prtImageData_nth_CMYK:
  assumes "colorMode s = CMYK" and "i < nat (prtImageDataSize s pageWidth pageHeight numPages)"
  shows "prtImageData P s pageWidth pageHeight numPages ! i
           = ToUint8 \<lfloor>fl (density_CMYK P
                   (row (prtImageDataSize s pageWidth pageHeight numPages) numPages pageWidth i)
                   (col (prtImageDataSize s pageWidth pageHeight numPages) numPages pageWidth i)
                 * fl (fl (4 / 5) + fl (Math_random P i * fl (2 / 5))))\<rfloor>"
  using prtImageData_nth [OF assms(2), of P] assms(1)
  by (simp add: prt_pixel_def Let_def)

lemma density_cmyk_page: "density_CMYK host 140 0 = 2226750677737481 / 8796093022208"
proof -
  have s: "Math_sin host (fl (140 * fl (1 / 100))) = 8876151097608925 / 9007199254740992"
    by (simp add: host_def sin_poly_def fl_1_100 fl_c2_arg power_divide fl_c2_sin)
  have co: "Math_cos host (fl (0 * fl (1 / 100))) = 1"
    by (simp add: host_def)
  show ?thesis
    unfolding density_CMYK_def of_int_numeral of_int_0 s co
    by (simp add: fl_c2_p1 fl_c2_p2 fl_c2_density)
qed

lemma factor_cmyk_page: "fl (fl (4 / 5) + fl (15 / 16 * fl (2 / 5))) = 5291729562160333 / 4503599627370496"
  by (simp add: fl_4_5 fl_2_5 fl_c2_m1 fl_c2_factor)

lemma value_cmyk_page:
  "\<lfloor>fl (density_CMYK host 140 0 * fl (fl (4 / 5) + fl (15 / 16 * fl (2 / 5))))\<rfloor> = 297"
  unfolding density_cmyk_page factor_cmyk_page
  by (simp add: fl_c2_value floor_rat_numeral_div)

text \<open>
  C2 (as the specification states it, the byte is clamped to \<open>[0, 255]\<close>). With the settings
  600 dpi, CMYK, compression 50 and one page of 850 x 1100, index 119000 is row 140 and
  column 0; on the concrete host the base intensity is about 253.15, the draw is 15/16,
  and \<^verbatim>\<open>floor(base * (0.8 + u * 0.4))\<close> is 297. The byte stored is 297 - 256 = 41;
  clamping would give 255.
\<close>

theorem C2_clamp_counterexample:
  "119000 < length (prtImageData host cmyk_settings 850 1100 1) \<and>
   \<lfloor>fl (density_CMYK host (row (prtImageDataSize cmyk_settings 850 1100 1) 1 850 119000)
                            (col (prtImageDataSize cmyk_settings 850 1100 1) 1 850 119000)
        * fl (fl (4 / 5) + fl (Math_random host 119000 * fl (2 / 5))))\<rfloor> = 297 \<and>
   prtImageData host cmyk_settings 850 1100 1 ! 119000 = 41 \<and>
   spec_clamped_byte 297 = 255"
proof -
  have l: "119000 < nat (prtImageDataSize cmyk_settings 850 1100 1)"
    unfolding prtImageDataSize_cmyk_page by simp
  have r: "Math_random host 119000 = 15 / 16" by (simp add: host_def)
  have c: "colorMode cmyk_settings = CMYK" by (simp add: cmyk_settings_def)
  have "prtImageData host cmyk_settings 850 1100 1 ! 119000 = ToUint8 297"
    unfolding prtImageData_nth_CMYK [OF c l] prtImageDataSize_cmyk_page row_cmyk_page
      col_cmyk_page r value_cmyk_page ..
  moreover have "ToUint8 297 = 41" by (simp add: ToUint8_def)
  moreover have "spec_clamped_byte 297 = 255" by (simp add: spec_clamped_byte_def)
  ultimately show ?thesis
    using l unfolding length_prtImageData prtImageDataSize_cmyk_page row_cmyk_page
      col_cmyk_page r value_cmyk_page
    by simp
qed

text \<open>
  C2 (amended). At every index \<open>i\<close> of the primary payload, with \<open>r\<close> and \<open>c\<close> the row and
  column derived from \<open>i\<close> and \<open>u\<close> the \<open>i\<close>-th random draw, all in double precision: in CMYK
  mode the stored byte is \<^verbatim>\<open>floor(base * (0.8 + u * 0.4))\<close> modulo 256 with
  \<^verbatim>\<open>base = sin(r * 0.01) * cos(c * 0.01) * 127 + 128\<close>, and in Grayscale mode it is
  \<^verbatim>\<open>floor(base * (0.7 + u * 0.6))\<close> modulo 256 with
  \<^verbatim>\<open>base = sin(r * 0.02) * cos(c * 0.02) * 127 + 128\<close>. The store into the \<^verbatim>\<open>Uint8Array\<close>
  wraps around; nothing clamps the value.
\<close>

theorem C2_payload_wraps:
  assumes "i < length (prtImageData P s pageWidth pageHeight numPages)"
  shows "(let r = row (prtImageDataSize s pageWidth pageHeight numPages) numPages pageWidth i;
              c = col (prtImageDataSize s pageWidth pageHeight numPages) numPages pageWidth i;
              u = Math_random P i
          in (colorMode s = CMYK \<longrightarrow>
                uint (prtImageData P s pageWidth pageHeight numPages ! i)
                  = \<lfloor>fl (fl (fl (fl (Math_sin P (fl (of_int r * fl (1 / 100)))
                                    * Math_cos P (fl (c * fl (1 / 100)))) * 127) + 128)
                          * fl (fl (4 / 5) + fl (u * fl (2 / 5))))\<rfloor> mod 256) \<and>
             (colorMode s = Grayscale \<longrightarrow>
                uint (prtImageData P s pageWidth pageHeight numPages ! i)
                  = \<lfloor>fl (fl (fl (fl (Math_sin P (fl (of_int r * fl (1 / 50)))
                                    * Math_cos P (fl (c * fl (1 / 50)))) * 127) + 128)
                          * fl (fl (7 / 10) + fl (u * fl (3 / 5))))\<rfloor> mod 256))"
proof -
  from assms have "i < nat (prtImageDataSize s pageWidth pageHeight numPages)"
    by (simp add: length_prtImageData)
  from prtImageData_nth [OF this, of P] show ?thesis
    by (simp add: prt_pixel_def Let_def ToUint8_def density_CMYK_def density_Grayscale_def
          uint_word_of_int)
qed

theorem C2_payload_wraps_witness:
  "119000 < length (prtImageData host cmyk_settings 850 1100 1) \<and>
   colorMode cmyk_settings = CMYK \<and>
   uint (prtImageData host cmyk_settings 850 1100 1 ! 119000) = 297 mod 256"
proof -
  have l: "119000 < length (prtImageData host cmyk_settings 850 1100 1)"
    unfolding length_prtImageData prtImageDataSize_cmyk_page by simp
  have c: "colorMode cmyk_settings = CMYK" by (simp add: cmyk_settings_def)
  have r: "Math_random host 119000 = 15 / 16" by (simp add: host_def)
  have v: "\<lfloor>fl (fl (fl (fl (Math_sin host (fl (of_int 140 * fl (1 / 100)))
                                    * Math_cos host (fl (0 * fl (1 / 100)))) * 127) + 128)
                          * fl (fl (4 / 5) + fl (15 / 16 * fl (2 / 5))))\<rfloor> = 297"
    using value_cmyk_page unfolding density_CMYK_def of_int_numeral of_int_0 .
  from C2_payload_wraps [OF l]
  have "colorMode cmyk_settings = CMYK \<longrightarrow>
          uint (prtImageData host cmyk_settings 850 1100 1 ! 119000) = 297 mod 256"
    unfolding Let_def prtImageDataSize_cmyk_page row_cmyk_page col_cmyk_page r v
    by (rule conjunct1)
  with c have "uint (prtImageData host cmyk_settings 850 1100 1 ! 119000) = 297 mod 256"
    by (rule rev_mp)
  with l c show ?thesis by simp
qed

subsection \<open>The wrap-around on any accurate platform\<close>

lemma pi_ge_three: "3 \<le> pi"
proof -
  have "sin (pi / 6) \<le> pi / 6" by (rule sin_x_le_x) simp
  thus ?thesis by (simp add: sin_30)
qed

lemma sin_14_bounds:
  fixes x :: real
  assumes "4 / 3 \<le> x" and "x \<le> 3 / 2"
  shows "43 / 50 \<le> sin x" and "sin x \<le> 1"
proof -
  have "pi / 3 \<le> x" using pi_less_4 assms(1) by simp
  moreover have "x \<le> pi / 2" using pi_ge_three assms(2) by simp
  moreover have "- (pi / 2) \<le> pi / 3" using pi_gt_zero by linarith
  ultimately have "sin (pi / 3) \<le> sin x" by (intro sin_monotone_2pi_le)
  moreover have "(43 / 25 :: real) \<le> sqrt 3"
    by (rule real_le_rsqrt) (simp add: power2_eq_square)
  ultimately show "43 / 50 \<le> sin x" by (simp add: sin_60)
  show "sin x \<le> 1" by simp
qed

lemma fl_between:
  assumes "a \<le> x" and "x \<le> b" and "fl a = a" and "fl b = b"
  shows "a \<le> fl x" and "fl x \<le> b"
  using fl_mono_all [OF assms(1)] fl_mono_all [OF assms(2)] assms(3,4) by simp_all

lemma fl_dyadic_16: "0 \<le> m \<Longrightarrow> m < 2 ^ 53 \<Longrightarrow> fl (of_int m / 16) = of_int m / 16"
  using fl_representable [of m "- 4"] by simp

text \<open>
  The wrap-around at index 119000 does not depend on the host: it happens on every
  platform whose sine and cosine are within 1/100 of the true values at the two
  arguments used, when the draw for that byte is 15/16.
\<close>

lemma payload_wraps_on_accurate_platform:
  assumes sin: "\<bar>real_of_rat (Math_sin P (fl (140 * fl (1 / 100))))
                  - sin (real_of_rat (fl (140 * fl (1 / 100))))\<bar> \<le> 1 / 100"
    and cos: "\<bar>real_of_rat (Math_cos P 0) - cos 0\<bar> \<le> 1 / 100"
    and draw: "Math_random P 119000 = 15 / 16"
  defines "v \<equiv> \<lfloor>fl (density_CMYK P 140 0 * fl (fl (4 / 5) + fl (15 / 16 * fl (2 / 5))))\<rfloor>"
  shows "256 \<le> v" and "v \<le> 320"
    and "uint (prtImageData P cmyk_settings 850 1100 1 ! 119000) = v - 256"
    and "prtImageData P cmyk_settings 850 1100 1 ! 119000 \<noteq> spec_clamped_byte v"
proof -
  define S where "S = Math_sin P (fl (140 * fl (1 / 100)))"
  define C where "C = Math_cos P 0"
  have x0: "fl (140 * fl (1 / 100)) = 6305039478318695 / 4503599627370496"
    by (simp add: fl_1_100 fl_c2_arg)
  have "43 / 50 \<le> sin (real_of_rat (fl (140 * fl (1 / 100))))"
    "sin (real_of_rat (fl (140 * fl (1 / 100)))) \<le> 1"
    unfolding x0 by (rule sin_14_bounds; simp add: of_rat_divide)+
  with sin have "17 / 20 \<le> real_of_rat S" "real_of_rat S \<le> 101 / 100"
    unfolding S_def by linarith+
  hence "real_of_rat (17 / 20) \<le> real_of_rat S" "real_of_rat S \<le> real_of_rat (101 / 100)"
    by (simp_all add: of_rat_divide)
  hence S: "17 / 20 \<le> S" "S \<le> 101 / 100"
    by (simp_all only: of_rat_less_eq)
  from cos have "\<bar>real_of_rat C - 1\<bar> \<le> 1 / 100"
    unfolding C_def by simp
  hence "99 / 100 \<le> real_of_rat C" "real_of_rat C \<le> 101 / 100"
    by linarith+
  hence "real_of_rat (99 / 100) \<le> real_of_rat C" "real_of_rat C \<le> real_of_rat (101 / 100)"
    by (simp_all add: of_rat_divide)
  hence C: "99 / 100 \<le> C" "C \<le> 101 / 100"
    by (simp_all only: of_rat_less_eq)
  have "17 / 20 * (99 / 100) \<le> S * C" "S * C \<le> 101 / 100 * (101 / 100)"
    using S C by (intro mult_mono; simp)+
  hence sc: "of_int 13 / 16 \<le> S * C" "S * C \<le> of_int 17 / 16" by simp_all
  note p1 = fl_between [OF sc fl_dyadic_16 fl_dyadic_16, simplified]
  have "of_int 1651 / 16 \<le> fl (S * C) * 127" "fl (S * C) * 127 \<le> of_int 2159 / 16"
    using p1 by simp_all
  note p2 = fl_between [OF this fl_dyadic_16 fl_dyadic_16, simplified]
  have "of_int 3699 / 16 \<le> fl (fl (S * C) * 127) + 128"
    "fl (fl (S * C) * 127) + 128 \<le> of_int 4207 / 16"
    using p2 by simp_all
  note d = fl_between [OF this fl_dyadic_16 fl_dyadic_16, simplified]
  have dens: "density_CMYK P 140 0 = fl (fl (fl (S * C) * 127) + 128)"
    by (simp add: density_CMYK_def S_def C_def)
  let ?f = "5291729562160333 / 4503599627370496 :: rat"
  have "of_int 256 \<le> fl (fl (fl (S * C) * 127) + 128) * ?f"
    "fl (fl (fl (S * C) * 127) + 128) * ?f \<le> of_int 320"
    using d by simp_all
  note val = fl_between [OF this fl_of_int fl_of_int, simplified]
  have v: "v = \<lfloor>fl (fl (fl (fl (S * C) * 127) + 128) * ?f)\<rfloor>"
    unfolding v_def dens factor_cmyk_page ..
  show lo: "256 \<le> v" unfolding v using val(1) by (simp add: le_floor_iff)
  show hi: "v \<le> 320" unfolding v using val(2) by (simp add: floor_le_iff)
  have l: "119000 < nat (prtImageDataSize cmyk_settings 850 1100 1)"
    unfolding prtImageDataSize_cmyk_page by simp
  have c: "colorMode cmyk_settings = CMYK" by (simp add: cmyk_settings_def)
  have byte: "prtImageData P cmyk_settings 850 1100 1 ! 119000 = ToUint8 v"
    unfolding prtImageData_nth_CMYK [OF c l] prtImageDataSize_cmyk_page row_cmyk_page
      col_cmyk_page draw v_def ..
  have "v mod 256 = v - 256" using lo hi by presburger
  thus u: "uint (prtImageData P cmyk_settings 850 1100 1 ! 119000) = v - 256"
    unfolding byte ToUint8_def by (simp add: uint_word_of_int)
  have "spec_clamped_byte v = 255" using lo by (simp add: spec_clamped_byte_def)
  hence "uint (spec_clamped_byte v) = 255" by simp
  with u hi show "prtImageData P cmyk_settings 850 1100 1 ! 119000 \<noteq> spec_clamped_byte v"
    by auto
qed

section \<open>Control data\<close>

lemma control_body_snd:
  "snd (control_body P cm i k) = k + (if cm = BlackWhite then 0 else 1)"
  by (simp add: control_body_def)

lemma controlDataSize_nonpos: "prtSize \<le> 0 \<Longrightarrow> controlDataSize prtSize \<le> 0"
proof -
  assume "prtSize \<le> 0"
  moreover have "0 \<le> fl (1 / 10)" by (rule fl_nonneg) simp
  ultimately have "of_int prtSize * fl (1 / 10) \<le> 0"
    by (simp add: mult_nonpos_nonneg)
  hence "fl (of_int prtSize * fl (1 / 10)) \<le> 0" by (rule fl_nonpos)
  thus ?thesis unfolding controlDataSize_def by simp
qed

lemma length_controlData:
  "length (controlData P s pageWidth pageHeight numPages)
     = nat (controlDataSize (prtImageDataSize s pageWidth pageHeight numPages))"
  by (simp add: controlData_def controlData_fill_def Let_def for_fill_length)

lemma length_controlData_payload:
  "length (controlData P s pageWidth pageHeight numPages)
     = nat \<lfloor>fl (of_nat (length (prtImageData P s pageWidth pageHeight numPages)) * fl (1 / 10))\<rfloor>"
proof (cases "0 \<le> prtImageDataSize s pageWidth pageHeight numPages")
  case True
  thus ?thesis
    by (simp add: length_controlData length_prtImageData controlDataSize_def)
next
  case False
  hence "controlDataSize (prtImageDataSize s pageWidth pageHeight numPages) \<le> 0"
    by (intro controlDataSize_nonpos) simp
  with False show ?thesis
    by (simp add: length_controlData length_prtImageData)
qed

lemma controlData_fill_nth:
  assumes "i < nat (controlDataSize prtSize)"
  shows "fst (controlData_fill P cm prtSize k) ! i
           = ToUint8 ((firingDelay i
                + dropletSize P cm (k + (if cm = BlackWhite then 0 else 1) * i)) mod 256)"
proof -
  let ?n = "nat (controlDataSize prtSize)"
  let ?c = "if cm = BlackWhite then 0 else 1 :: nat"
  have "fst (for_fill (control_body P cm) ?n 0 (replicate ?n 0, k)) ! i
          = (if 0 \<le> i \<and> i < ?n then fst (control_body P cm i (k + ?c * (i - 0)))
             else replicate ?n 0 ! i)"
    using for_fill_result [of "control_body P cm" ?c ?n 0 "replicate ?n 0" k] assms
    by (simp only: control_body_snd length_replicate)
  thus ?thesis
    using assms by (simp add: controlData_fill_def Let_def control_body_def)
qed

lemma controlData_fill_draws:
  "snd (controlData_fill P cm prtSize k)
     = k + (if cm = BlackWhite then 0 else 1) * nat (controlDataSize prtSize)"
  using for_fill_result [of "control_body P cm" "if cm = BlackWhite then 0 else 1"
      "nat (controlDataSize prtSize)" 0 "replicate (nat (controlDataSize prtSize)) 0" k]
  by (simp add: controlData_fill_def Let_def control_body_snd)

lemma controlData_nth:
  assumes "i < length (controlData P s pageWidth pageHeight numPages)"
  shows "controlData P s pageWidth pageHeight numPages ! i
           = ToUint8 ((firingDelay i
                + dropletSize P (colorMode s)
                    (length (prtImageData P s pageWidth pageHeight numPages) + i)) mod 256)"
proof -
  from assms
  have i: "i < nat (controlDataSize (prtImageDataSize s pageWidth pageHeight numPages))"
    by (simp add: length_controlData)
  show ?thesis
  proof (cases "colorMode s = BlackWhite")
    case True
    with controlData_fill_nth [OF i, of P "colorMode s"] show ?thesis
      by (simp add: controlData_def dropletSize_def)
  next
    case False
    with controlData_fill_nth [OF i, of P "colorMode s"] show ?thesis
      by (simp add: controlData_def prtImageData_draws length_prtImageData)
  qed
qed

lemma controlData_BlackWhite_platform:
  assumes "colorMode s = BlackWhite"
  shows "controlData P' s pageWidth pageHeight numPages
           = controlData P s pageWidth pageHeight numPages"
proof (rule nth_equalityI)
  show "length (controlData P' s pageWidth pageHeight numPages)
          = length (controlData P s pageWidth pageHeight numPages)"
    by (simp add: length_controlData)
next
  fix i assume "i < length (controlData P' s pageWidth pageHeight numPages)"
  hence "i < length (controlData P' s pageWidth pageHeight numPages)"
    "i < length (controlData P s pageWidth pageHeight numPages)"
    by (simp_all add: length_controlData)
  from controlData_nth [OF this(1)] controlData_nth [OF this(2)] assms
  show "controlData P' s pageWidth pageHeight numPages ! i
          = controlData P s pageWidth pageHeight numPages ! i"
    by (simp add: dropletSize_def)
qed

lemma fl_c5_size: "fl (1684342657756863701103 / 36028797018963968) = 6425257330920653 / 137438953472"
  using fl_cert [of 15 "1684342657756863701103 / 36028797018963968" 6425257330920653] by simp

lemma fl_c5_q: "fl (1279 / 1280) = 4500081190161613 / 4503599627370496"
  using fl_cert [of "- 1" "1279 / 1280" 9000162380323226] by simp

lemma fl_c5_fd: "fl (1147520703491211315 / 4503599627370496) = 65229 / 256"
  using fl_cert [of 7 "1147520703491211315 / 4503599627370496" 8965005496025088] by simp

lemma controlDataSize_scenario: "controlDataSize 467499 = 46749"
  by (simp add: controlDataSize_def fl_1_10 fl_c5_size floor_rat_numeral_div)

lemma firingDelay_1279: "\<lfloor>fl (fl (of_nat (1279 mod 1280) / 1280) * 255)\<rfloor> = (254 :: int)"
  by (simp add: fl_c5_q fl_c5_fd floor_rat_numeral_div)

subsection \<open>The error of one rounding\<close>

lemma fl_error:
  assumes "0 < x"
  shows "\<bar>fl x - x\<bar> \<le> x / 2 ^ 53"
proof -
  define e where "e = ilog2 x"
  let ?s = "(2::rat) powi (e - 52)"
  note b = ilog2_bounds [OF assms, folded e_def]
  have "fl x - x = (of_int (rne (x / ?s)) - x / ?s) * ?s"
    by (simp add: fl_pos_eq [OF assms, folded e_def] algebra_simps)
  hence "\<bar>fl x - x\<bar> = \<bar>of_int (rne (x / ?s)) - x / ?s\<bar> * ?s"
    by (simp add: abs_mult)
  also have "\<dots> \<le> 1 / 2 * ?s"
  proof -
    have "\<bar>of_int (rne (x / ?s)) - x / ?s\<bar> \<le> 1 / 2"
      using rne_bounds [of "x / ?s"] by linarith
    thus ?thesis by (intro mult_right_mono) simp_all
  qed
  also have "\<dots> = 2 powi e / 2 ^ 53"
    by (simp add: power_int_diff)
  also have "\<dots> \<le> x / 2 ^ 53"
    using b by (intro divide_right_mono) simp_all
  finally show ?thesis .
qed

subsection \<open>The firing delay and the control-data size as integers\<close>

lemma fl_1_5: "fl (1 / 5) = 3602879701896397 / 18014398509481984"
  using fl_cert [of "- 3" "1 / 5" 7205759403792794] by simp

lemma fl_3_5: "fl (3 / 5) = 5404319552844595 / 9007199254740992"
  using fl_cert [of "- 1" "3 / 5" 5404319552844595] by simp

lemma fl_delay_1: "fl (918734323983581235 / 18014398509481984) = 51"
  using fl_cert [of 5 "918734323983581235 / 18014398509481984" 7177611906121728] by simp

lemma fl_delay_2: "fl (918734323983581235 / 9007199254740992) = 102"
  using fl_cert [of 6 "918734323983581235 / 9007199254740992" 7177611906121728] by simp

lemma fl_delay_3: "fl (1378101485975371725 / 9007199254740992) = 153"
  using fl_cert [of 7 "1378101485975371725 / 9007199254740992" 5383208929591296] by simp

lemma fl_delay_4: "fl (918734323983581235 / 4503599627370496) = 204"
  using fl_cert [of 7 "918734323983581235 / 4503599627370496" 7177611906121728] by simp

lemma firingDelay_multiple:
  assumes "j \<in> {1, 2, 3, 4 :: nat}"
  shows "\<lfloor>fl (fl (of_nat (256 * j) / 1280) * 255)\<rfloor> = int (51 * j)"
proof -
  from assms consider "j = 1" | "j = 2" | "j = 3" | "j = 4" by auto
  thus ?thesis
  proof cases
    case 1 thus ?thesis by (simp add: fl_1_5 fl_delay_1)
  next
    case 2 thus ?thesis by (simp add: fl_2_5 fl_delay_2)
  next
    case 3 thus ?thesis by (simp add: fl_3_5 fl_delay_3)
  next
    case 4 thus ?thesis by (simp add: fl_4_5 fl_delay_4)
  qed
qed

lemma fl_dyadic_512: "0 \<le> m \<Longrightarrow> m < 2 ^ 53 \<Longrightarrow> fl (of_int m / 512) = of_int m / 512"
  using fl_representable [of m "- 9"] by simp

lemma firingDelay_generic:
  assumes k: "k < 1280" and t: "k mod 256 \<noteq> 0"
  shows "\<lfloor>fl (fl (of_nat k / 1280) * 255)\<rfloor> = int (k * 255 div 1280)"
proof -
  define m where "m = int (51 * k div 256)"
  define t where "t = int (51 * k mod 256)"
  let ?q = "of_nat k / 1280 :: rat"
  have kpos: "0 < k" using t by (cases k) simp_all
  have "k * 255 div 1280 = (5 * (51 * k)) div (5 * 256)" by simp
  also have "\<dots> = 51 * k div 256" by (rule div_mult_mult1) simp
  finally have m: "int (k * 255 div 1280) = m" unfolding m_def by simp
  have "\<not> 256 dvd 51 * k"
  proof
    assume d: "256 dvd 51 * k"
    define a where "a = 251 * (51 * k)"
    define b where "b = 256 * (50 * k)"
    have "256 dvd a" unfolding a_def using d by (rule dvd_mult)
    moreover have "256 dvd b" unfolding b_def by (rule dvd_triv_left)
    ultimately have "256 dvd a - b" by (rule dvd_diff_nat)
    moreover have "a - b = k" unfolding a_def b_def by simp
    ultimately have "256 dvd k" by simp
    with t show False by (simp add: mod_eq_0_iff_dvd)
  qed
  hence "51 * k mod 256 \<noteq> 0" by (simp add: mod_eq_0_iff_dvd)
  hence t1: "1 \<le> t" "t \<le> 255" unfolding t_def by simp_all
  have m0: "0 \<le> m" "m \<le> 254" unfolding m_def using k by simp_all
  have "int (51 * k) = 256 * m + t" unfolding m_def t_def zdiv_int zmod_int by simp
  hence "(of_int (int (51 * k)) :: rat) = of_int (256 * m + t)" by (simp only:)
  hence q255: "255 * ?q = of_int m + of_int t / 256" by simp
  have qpos: "0 < ?q" using kpos by simp
  have q1: "?q < 1" using k by simp
  from fl_error [OF qpos] have "\<bar>fl ?q - ?q\<bar> \<le> ?q / 2 ^ 53" .
  moreover have "?q / 2 ^ 53 \<le> 1 / 2 ^ 53"
    using q1 by (intro divide_right_mono) simp_all
  ultimately have err: "?q - 1 / 2 ^ 53 \<le> fl ?q" "fl ?q \<le> ?q + 1 / 2 ^ 53"
    by linarith+
  have "of_int m \<le> 255 * ?q - 255 / 2 ^ 53"
  proof -
    have "(1 :: rat) \<le> of_int t" using t1(1) by simp
    thus ?thesis unfolding q255 by simp
  qed
  also have "\<dots> \<le> fl ?q * 255" using err(1) by simp
  finally have lo: "of_int m \<le> fl ?q * 255" .
  have "fl ?q * 255 \<le> 255 * ?q + 255 / 2 ^ 53" using err(2) by simp
  also have "\<dots> \<le> of_int (512 * m + 511) / 512"
  proof -
    have "(of_int t :: rat) \<le> 255" using t1(2) by simp
    thus ?thesis unfolding q255 by (simp add: add_divide_distrib)
  qed
  finally have hi: "fl ?q * 255 \<le> of_int (512 * m + 511) / 512" .
  have fm: "fl (of_int m) = of_int m" using m0 by (intro fl_of_int) simp_all
  have fh: "fl (of_int (512 * m + 511) / 512) = of_int (512 * m + 511) / 512"
    using m0 by (intro fl_dyadic_512) simp_all
  have "of_int m \<le> fl (fl ?q * 255)"
    using fl_mono_all [OF lo] unfolding fm .
  moreover have "fl (fl ?q * 255) \<le> of_int (512 * m + 511) / 512"
    using fl_mono_all [OF hi] unfolding fh .
  hence "fl (fl ?q * 255) < of_int m + 1" by (simp add: add_divide_distrib)
  ultimately have "\<lfloor>fl (fl ?q * 255)\<rfloor> = m"
    by (intro floor_unique) simp_all
  thus ?thesis unfolding m .
qed

text \<open>In double precision the firing delay is the integer quotient \<open>255 k div 1280\<close>.\<close>

lemma firingDelay_exact: "firingDelay i = int (i mod 1280 * 255 div 1280)"
proof -
  define k where "k = i mod 1280"
  have k: "k < 1280" unfolding k_def by simp
  have "\<lfloor>fl (fl (of_nat k / 1280) * 255)\<rfloor> = int (k * 255 div 1280)"
  proof (cases "k mod 256 = 0")
    case False
    with k show ?thesis by (rule firingDelay_generic)
  next
    case True
    then obtain j where j: "k = 256 * j" by (auto simp: mod_eq_0_iff_dvd)
    with k have "j = 0 \<or> j \<in> {1, 2, 3, 4}" by auto
    thus ?thesis
    proof
      assume "j = 0" with j show ?thesis by simp
    next
      assume "j \<in> {1, 2, 3, 4}"
      from firingDelay_multiple [OF this] have "\<lfloor>fl (fl (of_nat k / 1280) * 255)\<rfloor> = int (51 * j)"
        unfolding j .
      moreover have "k * 255 div 1280 = 51 * j" unfolding j by simp
      ultimately show ?thesis by simp
    qed
  qed
  thus ?thesis by (simp add: firingDelay_def nozzleIndex_def k_def)
qed

lemma fl_1_10_excess: "fl (1 / 10) = 1 / 10 + 1 / (5 * 2 ^ 55)"
  by (simp add: fl_1_10)

text \<open>
  Below \<open>2 ^ 52\<close> bytes, far above what a typed array can hold in any engine, the
  control-data size in double precision is the integer quotient \<open>n div 10\<close>.
\<close>

lemma controlDataSize_exact:
  assumes "0 \<le> n" and "n < 2 ^ 52"
  shows "controlDataSize n = n div 10"
proof -
  define m where "m = n div 10"
  define r where "r = n mod 10"
  have n: "n = 10 * m + r" unfolding m_def r_def by simp
  have r: "0 \<le> r" "r \<le> 9" unfolding r_def by simp_all
  have m0: "0 \<le> m" unfolding m_def using assms(1) by simp
  have m52: "10 * m < 2 ^ 52" using n r(1) assms(2) by simp
  let ?x = "of_int n * fl (1 / 10) :: rat"
  have x: "?x = of_int m + of_int r / 10 + of_int n / (5 * 2 ^ 55)"
    unfolding fl_1_10_excess n by (simp add: algebra_simps add_divide_distrib)
  have nn: "(0::rat) \<le> of_int n" "(of_int n :: rat) < 2 ^ 52"
  proof -
    show "(0::rat) \<le> of_int n" using assms(1) by simp
    have "(of_int n :: rat) < of_int (2 ^ 52)" using assms(2) by (simp only: of_int_less_iff)
    thus "(of_int n :: rat) < 2 ^ 52" by simp
  qed
  have rr: "(0::rat) \<le> of_int r" "(of_int r :: rat) \<le> 9" using r by simp_all
  have lo: "of_int m \<le> ?x" unfolding x using nn(1) rr(1) by simp
  have "of_int n / (5 * 2 ^ 55) < (1 / 40 :: rat)" using nn(2) by simp
  hence hi: "?x \<le> of_int (16 * m + 15) / 16"
    unfolding x using rr(2) by (simp add: add_divide_distrib)
  have fm: "fl (of_int m) = of_int m" using m0 m52 by (intro fl_of_int) simp_all
  have fh: "fl (of_int (16 * m + 15) / 16) = of_int (16 * m + 15) / 16"
    using fl_representable [of "16 * m + 15" "- 4"] m0 m52 by simp
  have "of_int m \<le> fl ?x" using fl_mono_all [OF lo] unfolding fm .
  moreover have "fl ?x \<le> of_int (16 * m + 15) / 16" using fl_mono_all [OF hi] unfolding fh .
  hence "fl ?x < of_int m + 1" by (simp add: add_divide_distrib)
  ultimately have "\<lfloor>fl ?x\<rfloor> = m" by (intro floor_unique) simp_all
  thus ?thesis by (simp add: controlDataSize_def m_def)
qed

text \<open>
  C5. The control-data block has \<^verbatim>\<open>floor(n * 0.1)\<close> bytes, \<open>n\<close> the length of the primary
  payload. Its byte at index \<open>i\<close> is \<^verbatim>\<open>(firingDelay + dropletSize) mod 256\<close> with
  \<^verbatim>\<open>firingDelay = floor((i mod 1280) / 1280 * 255)\<close>, and \<^verbatim>\<open>dropletSize\<close> is 255 in
  BlackWhite mode and \<^verbatim>\<open>floor(128 + u * 127)\<close> otherwise, \<open>u\<close> the next random draw (all in
  double precision). In BlackWhite mode every byte is \<^verbatim>\<open>(firingDelay + 255) mod 256\<close>, the
  block is the same on every platform, and the loop makes no random draw. The rounding
  does not show: the firing delay is the integer quotient \<open>255 * (i mod 1280) div 1280\<close>,
  and for a payload below \<open>2 ^ 52\<close> bytes the block has \<open>n div 10\<close> bytes.
\<close>

theorem C5_controlData:
  assumes "i < length (controlData P s pageWidth pageHeight numPages)"
  shows "length (controlData P s pageWidth pageHeight numPages)
           = nat \<lfloor>fl (of_nat (length (prtImageData P s pageWidth pageHeight numPages))
                       * fl (1 / 10))\<rfloor> \<and>
         (let delay = \<lfloor>fl (fl (of_nat (i mod 1280) / 1280) * 255)\<rfloor>;
              u = Math_random P (length (prtImageData P s pageWidth pageHeight numPages) + i);
              droplet = (if colorMode s = BlackWhite then 255 else \<lfloor>fl (128 + fl (u * 127))\<rfloor>)
          in uint (controlData P s pageWidth pageHeight numPages ! i) = (delay + droplet) mod 256) \<and>
         (colorMode s = BlackWhite \<longrightarrow>
            uint (controlData P s pageWidth pageHeight numPages ! i)
              = (\<lfloor>fl (fl (of_nat (i mod 1280) / 1280) * 255)\<rfloor> + 255) mod 256 \<and>
            controlData P' s pageWidth pageHeight numPages
              = controlData P s pageWidth pageHeight numPages \<and>
            snd (controlData_fill P (colorMode s)
                   (prtImageDataSize s pageWidth pageHeight numPages) k) = k) \<and>
         \<lfloor>fl (fl (of_nat (i mod 1280) / 1280) * 255)\<rfloor> = int (i mod 1280 * 255 div 1280) \<and>
         (length (prtImageData P s pageWidth pageHeight numPages) < 2 ^ 52 \<longrightarrow>
            length (controlData P s pageWidth pageHeight numPages)
              = length (prtImageData P s pageWidth pageHeight numPages) div 10)"
proof -
  have "uint (controlData P s pageWidth pageHeight numPages ! i)
          = (firingDelay i + dropletSize P (colorMode s)
               (length (prtImageData P s pageWidth pageHeight numPages) + i)) mod 256"
    unfolding controlData_nth [OF assms] ToUint8_def by (simp add: uint_word_of_int)
  hence main: "length (controlData P s pageWidth pageHeight numPages)
           = nat \<lfloor>fl (of_nat (length (prtImageData P s pageWidth pageHeight numPages))
                       * fl (1 / 10))\<rfloor> \<and>
         (let delay = \<lfloor>fl (fl (of_nat (i mod 1280) / 1280) * 255)\<rfloor>;
              u = Math_random P (length (prtImageData P s pageWidth pageHeight numPages) + i);
              droplet = (if colorMode s = BlackWhite then 255 else \<lfloor>fl (128 + fl (u * 127))\<rfloor>)
          in uint (controlData P s pageWidth pageHeight numPages ! i) = (delay + droplet) mod 256) \<and>
         (colorMode s = BlackWhite \<longrightarrow>
            uint (controlData P s pageWidth pageHeight numPages ! i)
              = (\<lfloor>fl (fl (of_nat (i mod 1280) / 1280) * 255)\<rfloor> + 255) mod 256 \<and>
            controlData P' s pageWidth pageHeight numPages
              = controlData P s pageWidth pageHeight numPages \<and>
            snd (controlData_fill P (colorMode s)
                   (prtImageDataSize s pageWidth pageHeight numPages) k) = k)"
    using controlData_BlackWhite_platform [of s P' pageWidth pageHeight numPages P]
    by (simp add: length_controlData_payload [symmetric] firingDelay_def nozzleIndex_def
          dropletSize_def Let_def controlData_fill_draws)
  have delay: "\<lfloor>fl (fl (of_nat (i mod 1280) / 1280) * 255)\<rfloor> = int (i mod 1280 * 255 div 1280)"
    using firingDelay_exact [of i] by (simp add: firingDelay_def nozzleIndex_def)
  have size: "length (controlData P s pageWidth pageHeight numPages)
                = length (prtImageData P s pageWidth pageHeight numPages) div 10"
    if "length (prtImageData P s pageWidth pageHeight numPages) < 2 ^ 52"
  proof -
    let ?n = "length (prtImageData P s pageWidth pageHeight numPages)"
    have "int ?n < 2 ^ 52"
    proof -
      have "int ?n < int (2 ^ 52)" using that by (simp only: of_nat_less_iff)
      thus ?thesis by simp
    qed
    hence "controlDataSize (int ?n) = int ?n div 10"
      by (intro controlDataSize_exact) simp_all
    hence "nat \<lfloor>fl (of_nat ?n * fl (1 / 10))\<rfloor> = ?n div 10"
      unfolding controlDataSize_def by (simp add: zdiv_int [symmetric])
    thus ?thesis by (simp only: length_controlData_payload)
  qed
  from main delay size show ?thesis by blast
qed

theorem C5_controlData_witness:
  "1279 < length (controlData host scenario 850 1100 1) \<and>
   length (controlData host scenario 850 1100 1) = 46749 \<and>
   colorMode scenario = BlackWhite \<and>
   uint (controlData host scenario 850 1100 1 ! 1279) = (254 + 255) mod 256"
proof -
  have len: "length (controlData host scenario 850 1100 1) = 46749"
    unfolding length_controlData prtImageDataSize_def compressedImageSize_scenario
      controlDataSize_scenario by simp
  hence l: "1279 < length (controlData host scenario 850 1100 1)" by simp
  have c: "colorMode scenario = BlackWhite" by (simp add: scenario_def)
  from C5_controlData [OF l]
  have "colorMode scenario = BlackWhite \<longrightarrow>
          uint (controlData host scenario 850 1100 1 ! 1279) = (254 + 255) mod 256"
    unfolding firingDelay_1279 by blast
  with c len l show ?thesis by blast
qed

section \<open>Resampling\<close>

lemma fl_below_one: "fl (1 - 1 / 2 ^ 53) = 1 - 1 / 2 ^ 53"
  using fl_representable [of "2 ^ 53 - 1" "- 53"] by simp

lemma ilog2_of_int_bounds:
  assumes "0 < n" and "n < 2 ^ 53"
  shows "0 \<le> ilog2 (of_int n)" and "ilog2 (of_int n) \<le> 52"
proof -
  have npos: "0 < (of_int n :: rat)" using assms(1) by simp
  note b = ilog2_bounds [OF npos]
  have "(1::rat) \<le> of_int n" using assms(1) by (simp add: int_one_le_iff_zero_less)
  with b have "(2::rat) powi 0 < 2 powi (ilog2 (of_int n) + 1)" by simp
  thus "0 \<le> ilog2 (of_int n)"
    using two_powi_mono [of "ilog2 (of_int n) + 1" 0]
    by (cases "ilog2 (of_int n) + 1 \<le> 0") simp_all
  have "(of_int n :: rat) < of_int (2 ^ 53)" using assms(2) by (simp only: of_int_less_iff)
  with b have "(2::rat) powi (ilog2 (of_int n)) < 2 powi 53" by simp
  thus "ilog2 (of_int n) \<le> 52"
    using two_powi_mono [of 53 "ilog2 (of_int n)"]
    by (cases "53 \<le> ilog2 (of_int n)") simp_all
qed

lemma fl_scale_below:
  assumes n: "0 < n" "n < 2 ^ 53"
  shows "fl ((1 - 1 / 2 ^ 53) * of_int n) < of_int n"
proof -
  let ?a = "1 - 1 / 2 ^ 53 :: rat"
  define k where "k = ilog2 (of_int n)"
  have npos: "0 < (of_int n :: rat)" using n(1) by simp
  note b = ilog2_bounds [OF npos, folded k_def]
  note kb = ilog2_of_int_bounds [OF n, folded k_def]
  have pk: "(2::rat) powi k = of_int (2 ^ nat k)"
    using kb(1) by (simp add: power_int_def)
  show ?thesis
  proof (cases "of_int n = (2::rat) powi k")
    case True
    have "?a * of_int n = of_int (2 ^ 53 - 1) * 2 powi (k - 53)"
      unfolding True by (simp add: power_int_diff field_simps)
    hence "fl (?a * of_int n) = ?a * of_int n"
      using fl_representable [of "2 ^ 53 - 1" "k - 53"] by simp
    moreover have "?a * of_int n < of_int n" using npos by simp
    ultimately show ?thesis by simp
  next
    case False
    with b have "(of_int (2 ^ nat k) :: rat) < of_int n" unfolding pk by simp
    hence "2 ^ nat k < n" by (simp only: of_int_less_iff)
    hence "2 ^ nat k + 1 \<le> n" by simp
    hence "(of_int (2 ^ nat k + 1) :: rat) \<le> of_int n" by (simp only: of_int_le_iff)
    hence ge: "2 powi k + 1 \<le> (of_int n :: rat)" unfolding pk by simp
    let ?s = "(2::rat) powi (k - 52)"
    let ?y = "?a * of_int n"
    have n53: "(of_int n :: rat) < 2 ^ 53"
    proof -
      have "(of_int n :: rat) < of_int (2 ^ 53)" using n(2) by (simp only: of_int_less_iff)
      thus ?thesis by simp
    qed
    have y: "?y = of_int n - of_int n / 2 ^ 53" by (simp add: algebra_simps)
    have lo: "2 powi k \<le> ?y" using ge n53 unfolding y by simp
    have hi: "?y < 2 powi (k + 1)" using b npos unfolding y by simp
    have s: "1 / ?s = of_int (2 ^ nat (52 - k))"
      using kb(2) by (simp add: power_int_def power_int_minus [symmetric] field_simps)
    have e: "2 ^ 53 * ?s = 2 * 2 powi k"
      by (simp add: power_int_diff)
    have lt: "(2::rat) powi k < of_int n" using ge by simp
    have "1 / 2 < of_int n / (2 * (2::rat) powi k)"
      using lt by (simp add: pos_less_divide_eq)
    also have "of_int n / (2 * (2::rat) powi k) = of_int n / (2 ^ 53 * ?s)"
      by (simp only: e)
    also have "\<dots> = (of_int n / 2 ^ 53) / ?s"
      by simp
    finally have half: "1 / 2 < (of_int n / 2 ^ 53) / ?s" .
    define N where "N = n * 2 ^ nat (52 - k)"
    have N: "of_int n / ?s = of_int N"
      using s unfolding N_def by (simp add: field_simps)
    have "?y / ?s = of_int N - (of_int n / 2 ^ 53) / ?s"
      unfolding y N [symmetric] by (simp add: diff_divide_distrib)
    with half have "?y / ?s < of_int N - 1 / 2" by simp
    with rne_bounds [of "?y / ?s"] have "(of_int (rne (?y / ?s)) :: rat) < of_int N"
      by linarith
    hence "rne (?y / ?s) < N" by (simp only: of_int_less_iff)
    hence "rne (?y / ?s) \<le> N - 1" by simp
    hence "(of_int (rne (?y / ?s)) :: rat) \<le> of_int (N - 1)" by (simp only: of_int_le_iff)
    hence "of_int (rne (?y / ?s)) * ?s \<le> of_int (N - 1) * ?s"
      by (intro mult_right_mono) simp_all
    also have "\<dots> = of_int n - ?s"
      using N by (simp add: field_simps)
    also have "\<dots> < of_int n" by simp
    finally show ?thesis unfolding fl_binade [OF lo hi] .
  qed
qed


lemma fl_ratio_below_one:
  assumes "i < p" and "int p \<le> 2 ^ 53"
  shows "0 \<le> fl (of_nat i / of_nat p)" and "fl (of_nat i / of_nat p) \<le> 1 - 1 / 2 ^ 53"
proof -
  have ppos: "0 < (of_nat p :: rat)" using assms(1) by simp
  show "0 \<le> fl (of_nat i / of_nat p)" by (rule fl_nonneg) simp
  have "Suc i \<le> p" using assms(1) by simp
  hence "(of_nat (Suc i) :: rat) \<le> of_nat p" by (simp only: of_nat_le_iff)
  hence "(of_nat i :: rat) + 1 \<le> of_nat p" by simp
  hence "(of_nat i :: rat) / of_nat p \<le> (of_nat p - 1) / of_nat p"
    using ppos by (intro divide_right_mono) simp_all
  also have "\<dots> = 1 - 1 / of_nat p"
    using ppos by (simp add: diff_divide_distrib)
  also have "\<dots> \<le> 1 - 1 / 2 ^ 53"
  proof -
    have "(of_nat p :: rat) \<le> 2 ^ 53"
    proof -
      have "(of_int (int p) :: rat) \<le> of_int (2 ^ 53)"
        using assms(2) by (simp only: of_int_le_iff)
      thus ?thesis by simp
    qed
    hence "1 / 2 ^ 53 \<le> 1 / (of_nat p :: rat)"
      using ppos by (intro divide_left_mono) simp_all
    thus ?thesis by simp
  qed
  finally have "fl (of_nat i / of_nat p) \<le> fl (1 - 1 / 2 ^ 53)"
    by (intro fl_mono) simp_all
  thus "fl (of_nat i / of_nat p) \<le> 1 - 1 / 2 ^ 53"
    by (simp only: fl_below_one)
qed

lemma sourceIndex_range:
  assumes "i < pvwSize" and "int pvwSize \<le> 2 ^ 53 - 1"
    and "0 < prtSize" and "prtSize \<le> 2 ^ 53 - 1"
  shows "0 \<le> sourceIndex pvwSize prtSize i" and "sourceIndex pvwSize prtSize i < prtSize"
proof -
  let ?u = "fl (of_nat i / of_nat pvwSize)"
  have u: "0 \<le> ?u" "?u \<le> 1 - 1 / 2 ^ 53"
    using fl_ratio_below_one [of i pvwSize] assms(1,2) by simp_all
  have npos: "0 < (of_int prtSize :: rat)" using assms(3) by simp
  have nn: "0 \<le> ?u * of_int prtSize" using u(1) npos by simp
  hence "0 \<le> fl (?u * of_int prtSize)" by (rule fl_nonneg)
  thus "0 \<le> sourceIndex pvwSize prtSize i"
    by (simp add: sourceIndex_def)
  have "?u * of_int prtSize \<le> (1 - 1 / 2 ^ 53) * of_int prtSize"
    using u(2) npos by (intro mult_right_mono) simp_all
  with nn have "fl (?u * of_int prtSize) \<le> fl ((1 - 1 / 2 ^ 53) * of_int prtSize)"
    by (rule fl_mono)
  also have "\<dots> < of_int prtSize"
    using assms(3,4) by (intro fl_scale_below) simp_all
  finally show "sourceIndex pvwSize prtSize i < prtSize"
    by (simp add: sourceIndex_def floor_less_iff)
qed

lemma pvw_body_snd: "snd (pvw_body prt pvwSize prtSize i k) = k + 0"
  by (simp add: pvw_body_def)

lemma pvwImageData_of_nth:
  assumes "i < pvwSize"
  shows "pvwImageData_of prt pvwSize prtSize ! i
           = index_or_zero prt (sourceIndex pvwSize prtSize i)"
proof -
  have "fst (for_fill (pvw_body prt pvwSize prtSize) pvwSize 0 (replicate pvwSize 0, 0)) ! i
          = (if 0 \<le> i \<and> i < pvwSize
             then fst (pvw_body prt pvwSize prtSize i (0 + 0 * (i - 0)))
             else replicate pvwSize 0 ! i)"
    using for_fill_result [of "pvw_body prt pvwSize prtSize" 0 pvwSize 0 "replicate pvwSize 0" 0]
      assms
    by (simp only: pvw_body_snd length_replicate)
  thus ?thesis using assms by (simp add: pvwImageData_of_def pvw_body_def)
qed

lemma length_pvwImageData:
  "length (pvwImageData P s pageWidth pageHeight numPages)
     = (case pvwImageDataSize s pageWidth pageHeight numPages of None \<Rightarrow> 0 | Some v \<Rightarrow> nat v)"
  by (simp add: pvwImageData_def pvwImageData_of_def for_fill_length)

lemma index_or_zero_in_range:
  "0 \<le> j \<Longrightarrow> nat j < length arr \<Longrightarrow> index_or_zero arr j = arr ! nat j"
  by (simp add: index_or_zero_def)

lemma generateRIPFiles_Inr_pvw:
  assumes "generateRIPFiles P s pageWidth pageHeight numPages = Inr out"
  shows "int (length (pvwImageData P s pageWidth pageHeight numPages)) \<le> 2 ^ 53 - 1"
  using assms
  by (cases "pvwImageDataSize s pageWidth pageHeight numPages")
     (auto simp: generateRIPFiles_def bind_err_eq_Inr Uint8Array_new_def length_pvwImageData
        split: if_splits)

subsection \<open>The sampled index without rounding\<close>

lemma fl_7_10: "fl (7 / 10) = 3152519739159347 / 4503599627370496"
  using fl_cert [of "- 1" "7 / 10" 6305039478318694] by simp

lemma fl_c6_a: "fl (1351079888211149 / 4503599627370496) = 1351079888211149 / 4503599627370496"
  using fl_cert [of "- 2" "1351079888211149 / 4503599627370496" 5404319552844596] by simp

lemma fl_c6_b: "fl (10808639105689191 / 18014398509481984) = 1351079888211149 / 2251799813685248"
  using fl_cert_tie [of "- 1" "10808639105689191 / 18014398509481984" 5404319552844595] by simp

lemma fl_c6_size: "fl (52692115640234811 / 1125899906842624) = 6586514455029351 / 140737488355328"
  using fl_cert [of 5 "52692115640234811 / 1125899906842624" 6586514455029351] by simp

lemma fl_c6_pvw: "fl (105384231280469609 / 4503599627370496) = 6586514455029351 / 281474976710656"
  using fl_cert [of 4 "105384231280469609 / 4503599627370496" 6586514455029351] by simp

lemma fl_13_23: "fl (13 / 23) = 5091025665723169 / 9007199254740992"
  using fl_cert [of "- 1" "13 / 23" 5091025665723169] by simp

lemma fl_c6_shift: "fl (117093590311632887 / 4503599627370496) = 7318349394477055 / 281474976710656"
  using fl_cert [of 4 "117093590311632887 / 4503599627370496" 7318349394477055] by simp

lemma fl_c6_ctl: "fl (82866233143617131 / 18014398509481984) = 5179139571476071 / 1125899906842624"
  using fl_cert [of 2 "82866233143617131 / 18014398509481984" 5179139571476071] by simp

lemma fl_25_26: "fl (25 / 26) = 8660768514174031 / 9007199254740992"
  using fl_cert [of "- 1" "25 / 26" 8660768514174031] by simp

lemma fl_3_2: "fl (3 / 2) = 3 / 2"
  using fl_representable [of 3 "- 1"] by simp

lemma fl_1_10_double:
  "fl (3602879701896397 / 36028797018963968) = 3602879701896397 / 36028797018963968"
  using fl_representable [of 3602879701896397 "- 55"] by simp

lemma fl_1_128: "fl (1 / 128) = 1 / 128"
  using fl_representable [of 1 "- 7"] by simp

lemma fl_127_128: "fl (127 / 128) = 127 / 128"
  using fl_representable [of 127 "- 7"] by simp

lemma fl_16511_128: "fl (16511 / 128) = 16511 / 128"
  using fl_representable [of 16511 "- 7"] by simp

lemma prtImageDataSize_shift: "prtImageDataSize shift_settings 26 3 1 = 46"
proof -
  have b: "baseImageSize shift_settings 26 3 1 = 78"
    by (simp add: baseImageSize_def bytesPerPixel_def shift_settings_def fl_numeral)
  have c: "compressionRatio shift_settings = 3152519739159347 / 4503599627370496"
    by (simp add: compressionRatio_def shift_settings_def fl_7_10)
  show ?thesis
    unfolding prtImageDataSize_def compressedImageSize_def b c
    by (simp add: fl_3_10 fl_c6_a fl_c6_b fl_c6_size floor_rat_numeral_div)
qed

lemma previewWidth_shift: "previewWidth shift_settings 26 = Some 13"
  by (simp add: previewWidth_def previewDPI_def shift_settings_def fl_1_2 fl_numeral)

lemma previewHeight_shift: "previewHeight shift_settings 3 = Some 2"
  by (simp add: previewHeight_def previewDPI_def shift_settings_def fl_1_2 fl_3_2
        ceiling_rat_numeral_div)

lemma pvwImageDataSize_shift: "pvwImageDataSize shift_settings 26 3 1 = Some 23"
  unfolding pvwImageDataSize_def previewWidth_shift previewHeight_shift
  by (simp add: bytesPerPixel_def shift_settings_def fl_numeral fl_9_10 fl_c6_pvw
        floor_rat_numeral_div)

lemma controlDataSize_shift: "controlDataSize 46 = 4"
  by (simp add: controlDataSize_def fl_1_10 fl_c6_ctl floor_rat_numeral_div)

lemma sourceIndex_shift: "sourceIndex 23 46 13 = 25"
  by (simp add: sourceIndex_def fl_13_23 fl_c6_shift floor_rat_numeral_div)

lemma spec_sourceIndex_shift: "spec_sourceIndex 23 46 13 = 26"
  by (simp add: spec_sourceIndex_def)

lemma row_col_25: "row 46 1 26 25 = 0" "col 46 1 26 25 = 25"
  by (simp_all add: row_def col_def pageOffset_def js_rem_def fl_numeral fl_25_26
        floor_rat_numeral_div)

lemma row_col_26: "row 46 1 26 26 = 1" "col 46 1 26 26 = 0"
  by (simp_all add: row_def col_def pageOffset_def js_rem_def fl_numeral
        floor_rat_numeral_div)


lemma threshold_0_25:
  assumes "Math_sin P 0 = 0"
  shows "threshold P 0 25 = 128"
  using assms by (simp add: threshold_def fl_numeral)

lemma threshold_1_0:
  assumes "Math_cos P 0 = 1" and "1 / 128 \<le> Math_sin P (fl (1 / 10))"
  shows "128 < threshold P 1 0"
proof -
  let ?s = "Math_sin P (fl (1 / 10))"
  have arg: "fl (of_int 1 * fl (1 / 10)) = fl (1 / 10)"
    by (simp add: fl_1_10 fl_1_10_double)
  have "fl (1 / 128) \<le> fl ?s" using assms(2) by (rule fl_mono_all)
  hence a: "1 / 128 \<le> fl ?s" unfolding fl_1_128 .
  hence "127 / 128 \<le> fl ?s * 127" by simp
  hence "fl (127 / 128) \<le> fl (fl ?s * 127)" by (rule fl_mono_all)
  hence "127 / 128 \<le> fl (fl ?s * 127)" unfolding fl_127_128 .
  hence "16511 / 128 \<le> fl (fl ?s * 127) + 128" by simp
  hence "fl (16511 / 128) \<le> fl (fl (fl ?s * 127) + 128)" by (rule fl_mono_all)
  hence "16511 / 128 \<le> fl (fl (fl ?s * 127) + 128)" unfolding fl_16511_128 .
  hence b: "128 < fl (fl (fl ?s * 127) + 128)" by simp
  have "threshold P 1 0 = fl (fl (fl (?s * 1) * 127) + 128)"
    unfolding threshold_def arg using assms(1) by simp
  thus ?thesis using b by simp
qed

text \<open>
  With a page of 26 x 3 pixels, BlackWhite and compression level 70, the primary payload
  has 46 bytes and the preview payload 23. For the preview index 13 the quotient
  \<open>13 / 23\<close> rounds down, its product with 46 rounds to the double below 26, and the
  program reads the primary byte 25, the last of row 0, where the exact value of
  \<^verbatim>\<open>floor(13 / 23 * 46)\<close> is 26, the first of row 1. On every platform whose sine is 0 at 0
  and at least 1/128 at 0.1 and whose cosine is 1 at 0, the two bytes differ.
\<close>

lemma resampling_rounds_down:
  assumes "Math_sin P 0 = 0" and "Math_cos P 0 = 1"
    and "1 / 128 \<le> Math_sin P (fl (1 / 10))"
  shows "length (prtImageData P shift_settings 26 3 1) = 46"
    and "length (pvwImageData P shift_settings 26 3 1) = 23"
    and "prtImageData P shift_settings 26 3 1 ! 25 = 0"
    and "prtImageData P shift_settings 26 3 1 ! 26 = 255"
    and "pvwImageData P shift_settings 26 3 1 ! 13 = 0"
proof -
  have cm: "colorMode shift_settings = BlackWhite" by (simp add: shift_settings_def)
  show l: "length (prtImageData P shift_settings 26 3 1) = 46"
    unfolding length_prtImageData prtImageDataSize_shift by simp
  show "length (pvwImageData P shift_settings 26 3 1) = 23"
    unfolding length_pvwImageData pvwImageDataSize_shift by simp
  have "prtImageData P shift_settings 26 3 1 ! 25
          = prt_pixel P BlackWhite 46 1 26 25 (Math_random P 0)"
    using prtImageData_nth [of 25 shift_settings 26 3 1 P]
    unfolding prtImageDataSize_shift cm by simp
  thus b25: "prtImageData P shift_settings 26 3 1 ! 25 = 0"
    unfolding prt_pixel_BlackWhite row_col_25 threshold_0_25 [OF assms(1)] by simp
  have "prtImageData P shift_settings 26 3 1 ! 26
          = prt_pixel P BlackWhite 46 1 26 26 (Math_random P 0)"
    using prtImageData_nth [of 26 shift_settings 26 3 1 P]
    unfolding prtImageDataSize_shift cm by simp
  thus "prtImageData P shift_settings 26 3 1 ! 26 = 255"
    unfolding prt_pixel_BlackWhite row_col_26 using threshold_1_0 [OF assms(2,3)] by simp
  have "pvwImageData P shift_settings 26 3 1 ! 13
          = index_or_zero (prtImageData P shift_settings 26 3 1) (sourceIndex 23 46 13)"
    unfolding pvwImageData_def pvwImageDataSize_shift prtImageDataSize_shift
    using pvwImageData_of_nth [of 13 23 "prtImageData P shift_settings 26 3 1" 46] by simp
  thus "pvwImageData P shift_settings 26 3 1 ! 13 = 0"
    unfolding sourceIndex_shift using b25 l by (simp add: index_or_zero_def)
qed

lemma sin_poly_1_10: "1 / 128 \<le> sin_poly (fl (1 / 10))"
proof -
  let ?x = "3602879701896397 / 36028797018963968 :: rat"
  have "1 / 128 \<le> ?x - ?x ^ 3 / 6 + ?x ^ 5 / 120 - ?x ^ 7 / 5040 + ?x ^ 9 / 362880"
    by (simp add: power_divide)
  hence "fl (1 / 128) \<le> fl (?x - ?x ^ 3 / 6 + ?x ^ 5 / 120 - ?x ^ 7 / 5040 + ?x ^ 9 / 362880)"
    by (rule fl_mono_all)
  thus ?thesis unfolding fl_1_128 fl_1_10 sin_poly_def .
qed

lemma generateRIPFiles_shift:
  "generateRIPFiles host shift_settings 26 3 1
     = Inr (prtHeader host shift_settings 26 3 1 @ prtImageData host shift_settings 26 3 1
              @ controlData host shift_settings 26 3 1,
            pvwHeader host shift_settings 26 3 1 @ pvwImageData host shift_settings 26 3 1)"
proof (rule generateRIPFiles_ok [where v = 23])
  show "pvwImageDataSize shift_settings 26 3 1 = Some 23" by (rule pvwImageDataSize_shift)
  have l1: "length (prtImageData host shift_settings 26 3 1) = 46"
    unfolding length_prtImageData prtImageDataSize_shift by simp
  have l2: "length (controlData host shift_settings 26 3 1) = 4"
    unfolding controlData_def controlData_fill_def Let_def prtImageDataSize_shift
      controlDataSize_shift
    by (simp add: for_fill_length)
  have l3: "length (pvwImageData host shift_settings 26 3 1) = 23"
    unfolding length_pvwImageData pvwImageDataSize_shift by simp
  have h1: "length (prtHeader host shift_settings 26 3 1) \<le> 1000"
    by (simp add: prtHeader_def prtHeader_lines_def TextEncoder_encode_def host_def
          shift_settings_def ColorMode_string_def bytesPerPixel_def Number_toString.simps)
  have h2: "length (pvwHeader host shift_settings 26 3 1) \<le> 1000"
    by (simp add: pvwHeader_def pvwHeader_lines_def TextEncoder_encode_def host_def
          shift_settings_def ColorMode_string_def bytesPerPixel_def Number_toString.simps
          previewDPI_def previewWidth_shift [unfolded shift_settings_def]
          previewHeight_shift [unfolded shift_settings_def] Number_toString_opt_def)
  show "int (length (prtHeader host shift_settings 26 3 1)
          + length (prtImageData host shift_settings 26 3 1)
          + length (controlData host shift_settings 26 3 1)) \<le> 2 ^ 53 - 1"
    using h1 unfolding l1 l2 by simp
  show "int (length (pvwHeader host shift_settings 26 3 1)
          + length (pvwImageData host shift_settings 26 3 1)) \<le> 2 ^ 53 - 1"
    using h2 unfolding l3 by simp
  show "0 \<le> prtImageDataSize shift_settings 26 3 1"
    unfolding prtImageDataSize_shift by simp
  show "0 \<le> controlDataSize (prtImageDataSize shift_settings 26 3 1)"
    unfolding prtImageDataSize_shift controlDataSize_shift by simp
qed simp

text \<open>
  C6 (as the specification states it, with the sampled index evaluated without
  rounding). The conversion of a page of 26 x 3 pixels, BlackWhite, compression level 70,
  returns, with a preview payload of 23 bytes and a primary payload of 46. For the preview
  index 13 the formula gives \<open>floor (13 / 23 * 46) = 26\<close>; the primary byte there is 255,
  and the preview byte at 13 is 0.
\<close>

theorem C6_exact_index_counterexample:
  "generateRIPFiles host shift_settings 26 3 1
     = Inr (prtHeader host shift_settings 26 3 1 @ prtImageData host shift_settings 26 3 1
              @ controlData host shift_settings 26 3 1,
            pvwHeader host shift_settings 26 3 1 @ pvwImageData host shift_settings 26 3 1) \<and>
   length (pvwImageData host shift_settings 26 3 1) = 23 \<and>
   length (prtImageData host shift_settings 26 3 1) = 46 \<and>
   spec_sourceIndex 23 46 13 = 26 \<and>
   pvwImageData host shift_settings 26 3 1 ! 13 = 0 \<and>
   prtImageData host shift_settings 26 3 1 ! 26 = 255 \<and>
   pvwImageData host shift_settings 26 3 1 ! 13
     \<noteq> prtImageData host shift_settings 26 3 1
         ! nat (spec_sourceIndex (length (pvwImageData host shift_settings 26 3 1))
                  (length (prtImageData host shift_settings 26 3 1)) 13)"
proof -
  have h: "Math_sin host 0 = 0" "Math_cos host 0 = 1" "1 / 128 \<le> Math_sin host (fl (1 / 10))"
    using sin_poly_1_10 by (simp_all add: host_def)
  note r = resampling_rounds_down [OF h]
  show ?thesis
    unfolding r spec_sourceIndex_shift using generateRIPFiles_shift r(4) by simp
qed

subsection \<open>The sampled index of the program\<close>

text \<open>
  C6 (amended). When the conversion returns, for every index \<open>i\<close> of a preview payload
  sampled from a non-empty primary payload, the source index
  \<^verbatim>\<open>floor(i / previewLength * primaryLength)\<close>, with the quotient and the product each
  rounded to double precision as the program evaluates them, is at least 0 and below the
  length of the primary payload, and the preview byte at \<open>i\<close> is the primary byte at that
  source index.
\<close>

theorem C6_resampling:
  assumes "generateRIPFiles P s pageWidth pageHeight numPages = Inr out"
    and "i < length (pvwImageData P s pageWidth pageHeight numPages)"
    and "0 < length (prtImageData P s pageWidth pageHeight numPages)"
  shows "(let src = \<lfloor>fl (fl (of_nat i
                           / of_nat (length (pvwImageData P s pageWidth pageHeight numPages)))
                      * of_nat (length (prtImageData P s pageWidth pageHeight numPages)))\<rfloor>
          in 0 \<le> src \<and>
             src < int (length (prtImageData P s pageWidth pageHeight numPages)) \<and>
             pvwImageData P s pageWidth pageHeight numPages ! i
               = prtImageData P s pageWidth pageHeight numPages ! nat src)"
proof -
  let ?prt = "prtImageData P s pageWidth pageHeight numPages"
  let ?pvw = "pvwImageData P s pageWidth pageHeight numPages"
  let ?n = "prtImageDataSize s pageWidth pageHeight numPages"
  define p where "p = (case pvwImageDataSize s pageWidth pageHeight numPages of
                         None \<Rightarrow> 0 | Some v \<Rightarrow> nat v)"
  have lp: "length ?pvw = p" by (simp add: length_pvwImageData p_def)
  have d: "?pvw = pvwImageData_of ?prt p ?n" by (simp add: pvwImageData_def p_def)
  obtain a b where out: "out = (a, b)" by (cases out)
  note g = generateRIPFiles_Inr(3,4) [OF assms(1) [unfolded out]]
  have n: "int (length ?prt) = ?n" using g(1) by (simp add: length_prtImageData)
  have npos: "0 < ?n" using assms(3) unfolding n [symmetric] by simp
  have i: "i < p" using assms(2) unfolding lp .
  have p: "int p \<le> 2 ^ 53 - 1"
    using generateRIPFiles_Inr_pvw [OF assms(1)] unfolding lp .
  note r = sourceIndex_range [OF i p npos g(2)]
  have "?pvw ! i = index_or_zero ?prt (sourceIndex p ?n i)"
    unfolding d by (rule pvwImageData_of_nth [OF i])
  also have "\<dots> = ?prt ! nat (sourceIndex p ?n i)"
    using r n by (intro index_or_zero_in_range) simp_all
  finally have e: "?pvw ! i = ?prt ! nat (sourceIndex p ?n i)" .
  have "sourceIndex p ?n i = \<lfloor>fl (fl (of_nat i / of_nat p) * of_nat (length ?prt))\<rfloor>"
    unfolding sourceIndex_def n [symmetric] by simp
  with r e n show ?thesis unfolding lp by (simp add: Let_def)
qed

lemma fl_2_3: "fl (2 / 3) = 6004799503160661 / 9007199254740992"
  using fl_cert [of "- 1" "2 / 3" 6004799503160661] by simp

lemma fl_c6_src: "fl (42033596522124627 / 9007199254740992) = 2627099782632789 / 562949953421312"
  using fl_cert [of 2 "42033596522124627 / 9007199254740992" 5254199565265578] by simp

theorem C6_resampling_witness:
  "generateRIPFiles host scenario 4 4 1
     = Inr (prtHeader host scenario 4 4 1 @ prtImageData host scenario 4 4 1
              @ controlData host scenario 4 4 1,
            pvwHeader host scenario 4 4 1 @ pvwImageData host scenario 4 4 1) \<and>
   2 < length (pvwImageData host scenario 4 4 1) \<and>
   0 < length (prtImageData host scenario 4 4 1) \<and>
   \<lfloor>fl (fl (of_nat 2 / of_nat (length (pvwImageData host scenario 4 4 1)))
          * of_nat (length (prtImageData host scenario 4 4 1)))\<rfloor> = (4 :: int) \<and>
   pvwImageData host scenario 4 4 1 ! 2 = prtImageData host scenario 4 4 1 ! 4"
proof -
  have lp: "length (pvwImageData host scenario 4 4 1) = 3"
    unfolding length_pvwImageData pvwImageDataSize_small by simp
  have ln: "length (prtImageData host scenario 4 4 1) = 7"
    unfolding length_prtImageData prtImageDataSize_small by simp
  have src: "\<lfloor>fl (fl (of_nat 2 / of_nat 3) * of_nat 7)\<rfloor> = (4 :: int)"
    by (simp add: fl_2_3 fl_c6_src floor_rat_numeral_div)
  have i: "2 < length (pvwImageData host scenario 4 4 1)" unfolding lp by simp
  have z: "0 < length (prtImageData host scenario 4 4 1)" unfolding ln by simp
  from C6_resampling [OF generateRIPFiles_small i z]
  have "pvwImageData host scenario 4 4 1 ! 2 = prtImageData host scenario 4 4 1 ! nat 4"
    unfolding Let_def lp ln src by blast
  with generateRIPFiles_small i z src show ?thesis
    unfolding lp ln by simp
qed

section \<open>Headers\<close>

lemma join_newline:
  "xs \<noteq> [] \<Longrightarrow> join sep xs @ sep = concat (map (\<lambda>l. l @ sep) xs)"
  by (induction sep xs rule: join.induct) simp_all

lemma prtHeader_concat:
  "prtHeader P s pageWidth pageHeight numPages
     = TextEncoder_encode
         (concat (map (\<lambda>l. l @ [CHR 0x0A]) (prtHeader_lines P s pageWidth pageHeight numPages)))"
proof -
  have "prtHeader_lines P s pageWidth pageHeight numPages \<noteq> []"
    by (simp add: prtHeader_lines_def)
  from join_newline [OF this, of "[CHR 0x0A]"] show ?thesis
    unfolding prtHeader_def by (rule arg_cong)
qed

lemma pvwHeader_concat:
  "pvwHeader P s pageWidth pageHeight numPages
     = TextEncoder_encode
         (concat (map (\<lambda>l. l @ [CHR 0x0A]) (pvwHeader_lines P s pageWidth pageHeight numPages)))"
proof -
  have "pvwHeader_lines P s pageWidth pageHeight numPages \<noteq> []"
    by (simp add: pvwHeader_lines_def)
  from join_newline [OF this, of "[CHR 0x0A]"] show ?thesis
    unfolding pvwHeader_def by (rule arg_cong)
qed

text \<open>
  C3 (as the specification states it, eleven device-capability fields). On the concrete
  host the lines of the primary header between the eleven identity fields and the
  sentinel are nine, not eleven.
\<close>

theorem C3_eleven_counterexample:
  "length (drop 11 (butlast (prtHeader_lines host scenario 850 1100 1))) = 9 \<and>
   length (drop 11 (butlast (prtHeader_lines host scenario 850 1100 1))) \<noteq> 11 \<and>
   last (prtHeader_lines host scenario 850 1100 1) = ''DROPLET_PLACEMENT_DATA_START''"
  by (simp add: prtHeader_lines_def)

text \<open>
  C3 (amended). The primary header is, each line ended by a newline, the eleven identity
  fields (format identifier, file-type tag, creator tag, timestamp, DPI, colour mode,
  compression level, page count, page width, page height, bytes per pixel), then exactly
  nine fixed device-capability fields, then the sentinel line
  \<^verbatim>\<open>DROPLET_PLACEMENT_DATA_START\<close>.
\<close>

theorem C3_primary_header:
  "prtHeader_lines P s pageWidth pageHeight numPages
     = [''RICOH_GEN6_RIP_V3.2'',
        ''FILE_TYPE:PRINT_DATA'',
        ''CREATED_BY:PDF_TO_RIP_CONVERTER'',
        ''TIMESTAMP:'' @ Date_toISOString P 0,
        ''DPI:'' @ Number_toString (dpi s),
        ''COLOR_MODE:'' @ ColorMode_string (colorMode s),
        ''COMPRESSION:'' @ Number_toString (compressionLevel s),
        ''PAGES:'' @ Number_toString numPages,
        ''PAGE_WIDTH:'' @ Number_toString pageWidth,
        ''PAGE_HEIGHT:'' @ Number_toString pageHeight,
        ''BYTES_PER_PIXEL:'' @ Number_toString (bytesPerPixel s)]
       @ [''PRINT_HEAD_CONFIG:RICOH_GEN6'',
          ''NOZZLE_COUNT:1280'',
          ''DROP_SIZE:6PL'',
          ''FIRING_FREQUENCY:40KHZ'',
          ''PASS_COUNT:4'',
          ''INTERLEAVE_MODE:ENABLED'',
          ''COLOR_SEPARATION:ENABLED'',
          ''HALFTONE_METHOD:ERROR_DIFFUSION'',
          ''INK_DENSITY_CONTROL:ENABLED'']
       @ [''DROPLET_PLACEMENT_DATA_START''] \<and>
   length (drop 11 (butlast (prtHeader_lines P s pageWidth pageHeight numPages))) = 9 \<and>
   prtHeader P s pageWidth pageHeight numPages
     = TextEncoder_encode
         (concat (map (\<lambda>l. l @ [CHR 0x0A]) (prtHeader_lines P s pageWidth pageHeight numPages)))"
  using prtHeader_concat [of P s pageWidth pageHeight numPages]
  by (simp add: prtHeader_lines_def)

lemma fl_1_4: "fl (1 / 4) = 1 / 4"
  using fl_representable [of 1 "- 2"] by simp

lemma fl_1_8: "fl (1 / 8) = 1 / 8"
  using fl_representable [of 1 "- 3"] by simp

lemma fl_of_nat_scaled:
  assumes "n < 2 ^ 53"
  shows "fl (of_nat n * 2 powi e) = of_nat n * 2 powi e"
  using fl_representable [of "int n" e] assms by simp

lemma preview_scale_exact:
  assumes "d \<in> {300, 600, 1200, 2400}" and "n < 2 ^ 53"
  shows "fl (of_nat n * fl (of_nat (min d 300) / of_nat d)) = of_nat n * 300 / of_nat d"
proof -
  from assms(1) consider "d = 300" | "d = 600" | "d = 1200" | "d = 2400" by auto
  thus ?thesis
  proof cases
    case 1
    thus ?thesis using fl_of_nat_scaled [OF assms(2), of 0] by simp
  next
    case 2
    thus ?thesis using fl_of_nat_scaled [OF assms(2), of "- 1"] by (simp add: fl_1_2)
  next
    case 3
    thus ?thesis using fl_of_nat_scaled [OF assms(2), of "- 2"] by (simp add: fl_1_4)
  next
    case 4
    thus ?thesis using fl_of_nat_scaled [OF assms(2), of "- 3"] by (simp add: fl_1_8)
  qed
qed

text \<open>
  C7. For a positive \<open>dpi\<close>, the preview header has the identity fields with DPI
  \<open>min dpi 300\<close>, the compression level 90 whatever the settings say, and the page width
  and height \<^verbatim>\<open>ceil(dimension * (previewDPI / dpi))\<close> in double precision; it has no
  device-capability field and ends with the sentinel line \<^verbatim>\<open>PREVIEW_DATA_START\<close>. For
  the resolutions the program offers (300, 600, 1200, 2400) the rounding is exact: the
  width and height are the exact ceilings of \<open>dimension * 300 / dpi\<close>.
\<close>

theorem C7_preview_header:
  assumes "0 < dpi s"
  shows "pvwHeader_lines P s pageWidth pageHeight numPages
     = [''RICOH_GEN6_PREVIEW_V3.2'',
        ''FILE_TYPE:PREVIEW_DATA'',
        ''CREATED_BY:PDF_TO_RIP_CONVERTER'',
        ''TIMESTAMP:'' @ Date_toISOString P 1,
        ''DPI:'' @ Number_toString (min (dpi s) 300),
        ''COLOR_MODE:'' @ ColorMode_string (colorMode s),
        ''COMPRESSION:90'',
        ''PAGES:'' @ Number_toString numPages,
        ''PAGE_WIDTH:'' @ Number_toString
           (nat \<lceil>fl (of_nat pageWidth * fl (of_nat (min (dpi s) 300) / of_nat (dpi s)))\<rceil>),
        ''PAGE_HEIGHT:'' @ Number_toString
           (nat \<lceil>fl (of_nat pageHeight * fl (of_nat (min (dpi s) 300) / of_nat (dpi s)))\<rceil>),
        ''BYTES_PER_PIXEL:'' @ Number_toString (bytesPerPixel s),
        ''PREVIEW_DATA_START''] \<and>
   pvwHeader P s pageWidth pageHeight numPages
     = TextEncoder_encode
         (concat (map (\<lambda>l. l @ [CHR 0x0A]) (pvwHeader_lines P s pageWidth pageHeight numPages))) \<and>
   (dpi s \<in> {300, 600, 1200, 2400} \<and> pageWidth < 2 ^ 53 \<and> pageHeight < 2 ^ 53 \<longrightarrow>
      previewWidth s pageWidth = Some \<lceil>(of_nat pageWidth * 300 / of_nat (dpi s) :: rat)\<rceil> \<and>
      previewHeight s pageHeight = Some \<lceil>(of_nat pageHeight * 300 / of_nat (dpi s) :: rat)\<rceil>)"
proof -
  have "pvwHeader_lines P s pageWidth pageHeight numPages
     = [''RICOH_GEN6_PREVIEW_V3.2'',
        ''FILE_TYPE:PREVIEW_DATA'',
        ''CREATED_BY:PDF_TO_RIP_CONVERTER'',
        ''TIMESTAMP:'' @ Date_toISOString P 1,
        ''DPI:'' @ Number_toString (min (dpi s) 300),
        ''COLOR_MODE:'' @ ColorMode_string (colorMode s),
        ''COMPRESSION:90'',
        ''PAGES:'' @ Number_toString numPages,
        ''PAGE_WIDTH:'' @ Number_toString
           (nat \<lceil>fl (of_nat pageWidth * fl (of_nat (min (dpi s) 300) / of_nat (dpi s)))\<rceil>),
        ''PAGE_HEIGHT:'' @ Number_toString
           (nat \<lceil>fl (of_nat pageHeight * fl (of_nat (min (dpi s) 300) / of_nat (dpi s)))\<rceil>),
        ''BYTES_PER_PIXEL:'' @ Number_toString (bytesPerPixel s),
        ''PREVIEW_DATA_START'']"
    using assms
    by (simp add: pvwHeader_lines_def previewDPI_def previewWidth_def previewHeight_def
          Number_toString_opt_def)
  moreover have "previewWidth s pageWidth = Some \<lceil>(of_nat pageWidth * 300 / of_nat (dpi s) :: rat)\<rceil>"
    if "dpi s \<in> {300, 600, 1200, 2400}" "pageWidth < 2 ^ 53"
    using that assms preview_scale_exact [of "dpi s" pageWidth]
    by (simp add: previewWidth_def previewDPI_def)
  moreover have "previewHeight s pageHeight = Some \<lceil>(of_nat pageHeight * 300 / of_nat (dpi s) :: rat)\<rceil>"
    if "dpi s \<in> {300, 600, 1200, 2400}" "pageHeight < 2 ^ 53"
    using that assms preview_scale_exact [of "dpi s" pageHeight]
    by (simp add: previewHeight_def previewDPI_def)
  ultimately show ?thesis
    using pvwHeader_concat [of P s pageWidth pageHeight numPages] by blast
qed

theorem C7_preview_header_witness:
  "0 < dpi scenario \<and>
   dpi scenario \<in> {300, 600, 1200, 2400} \<and> (850 :: nat) < 2 ^ 53 \<and> (1100 :: nat) < 2 ^ 53 \<and>
   pvwHeader_lines host scenario 850 1100 1
     = [''RICOH_GEN6_PREVIEW_V3.2'',
        ''FILE_TYPE:PREVIEW_DATA'',
        ''CREATED_BY:PDF_TO_RIP_CONVERTER'',
        ''TIMESTAMP:2024-01-01T00:00:00.000Z'',
        ''DPI:300'',
        ''COLOR_MODE:BlackWhite'',
        ''COMPRESSION:90'',
        ''PAGES:1'',
        ''PAGE_WIDTH:425'',
        ''PAGE_HEIGHT:550'',
        ''BYTES_PER_PIXEL:1'',
        ''PREVIEW_DATA_START''] \<and>
   previewWidth scenario 850 = Some 425 \<and>
   previewHeight scenario 1100 = Some 550"
proof -
  have d: "0 < dpi scenario" "dpi scenario \<in> {300, 600, 1200, 2400}"
    by (simp_all add: scenario_def)
  have w: "fl (of_nat 850 * fl (of_nat (min (dpi scenario) 300) / of_nat (dpi scenario))) = 425"
    "fl (of_nat 1100 * fl (of_nat (min (dpi scenario) 300) / of_nat (dpi scenario))) = 550"
    by (simp_all add: scenario_def fl_1_2 fl_numeral)
  have e: "(of_nat 850 * 300 / of_nat (dpi scenario) :: rat) = 425"
    "(of_nat 1100 * 300 / of_nat (dpi scenario) :: rat) = 550"
    by (simp_all add: scenario_def)
  from C7_preview_header [OF d(1), of host 850 1100 1] d
  show ?thesis
    unfolding w e
    by (simp add: host_def scenario_def ColorMode_string_def bytesPerPixel_def
          Number_toString.simps)
qed

section \<open>The size of the primary payload\<close>

lemma baseImageSize_nonneg: "0 \<le> baseImageSize s pageWidth pageHeight numPages"
  unfolding baseImageSize_def
  by (intro fl_nonneg mult_nonneg_nonneg) simp_all

lemma compressedImageSize_antimono:
  assumes "compressionLevel s1 \<le> compressionLevel s2"
    and "colorMode s1 = colorMode s2"
  shows "compressedImageSize s2 pageWidth pageHeight numPages
           \<le> compressedImageSize s1 pageWidth pageHeight numPages"
proof -
  have b: "baseImageSize s2 pageWidth pageHeight numPages
             = baseImageSize s1 pageWidth pageHeight numPages"
    using assms(2) by (simp add: baseImageSize_def bytesPerPixel_def)
  have "(of_nat (compressionLevel s1) :: rat) / 100 \<le> of_nat (compressionLevel s2) / 100"
    using assms(1) by simp
  hence "compressionRatio s1 \<le> compressionRatio s2"
    unfolding compressionRatio_def by (rule fl_mono_all)
  hence "1 - compressionRatio s2 \<le> 1 - compressionRatio s1" by simp
  hence "fl (1 - compressionRatio s2) \<le> fl (1 - compressionRatio s1)"
    by (rule fl_mono_all)
  hence "fl (1 - compressionRatio s2) + fl (3 / 10) \<le> fl (1 - compressionRatio s1) + fl (3 / 10)"
    by simp
  hence "fl (fl (1 - compressionRatio s2) + fl (3 / 10))
           \<le> fl (fl (1 - compressionRatio s1) + fl (3 / 10))"
    by (rule fl_mono_all)
  hence "baseImageSize s1 pageWidth pageHeight numPages
             * fl (fl (1 - compressionRatio s2) + fl (3 / 10))
           \<le> baseImageSize s1 pageWidth pageHeight numPages
             * fl (fl (1 - compressionRatio s1) + fl (3 / 10))"
    by (intro mult_left_mono baseImageSize_nonneg)
  hence "fl (baseImageSize s1 pageWidth pageHeight numPages
               * fl (fl (1 - compressionRatio s2) + fl (3 / 10)))
           \<le> fl (baseImageSize s1 pageWidth pageHeight numPages
               * fl (fl (1 - compressionRatio s1) + fl (3 / 10)))"
    by (rule fl_mono_all)
  thus ?thesis
    unfolding compressedImageSize_def b by (rule floor_mono)
qed

lemma spec_payload_length_scenario: "spec_payload_length scenario 850 1100 1 = 467500"
  by (simp add: spec_payload_length_def scenario_def bytesPerPixel_def)

text \<open>
  C4 (as the specification states it, with its formula evaluated without rounding, as
  the specification evaluates it in its scenario). For the page 850 x 1100, one page,
  BlackWhite, compression level 80, the formula gives \<open>floor (935000 * (1 / 2)) = 467500\<close>,
  and the primary payload of the program has 467499 bytes.
\<close>

theorem C4_exact_counterexample:
  "spec_payload_length scenario 850 1100 1 = 467500 \<and>
   int (length (prtImageData host scenario 850 1100 1)) = 467499 \<and>
   int (length (prtImageData host scenario 850 1100 1))
     \<noteq> spec_payload_length scenario 850 1100 1"
  unfolding length_prtImageData prtImageDataSize_def compressedImageSize_scenario
    spec_payload_length_scenario
  by simp

text \<open>
  C4 (amended). The primary payload has
  \<^verbatim>\<open>floor(pageWidth * pageHeight * bytesPerPixel * pageCount * (1 - compressionLevel/100 + 0.3))\<close>
  bytes, with every operation of the expression rounded to double precision as the
  program evaluates it; and for the same geometry and colour mode, a compression level
  that is higher, both levels in \<open>[10, 100]\<close>, never gives a longer payload.
\<close>

theorem C4_payload_length:
  assumes "10 \<le> compressionLevel s1"
    and "compressionLevel s1 \<le> compressionLevel s2"
    and "compressionLevel s2 \<le> 100"
    and "colorMode s1 = colorMode s2"
  shows "length (prtImageData P s1 pageWidth pageHeight numPages)
           = nat \<lfloor>fl (fl (fl (fl (of_nat pageWidth * of_nat pageHeight)
                                 * of_nat (if colorMode s1 = CMYK then 4 else 1))
                             * of_nat numPages)
                         * fl (fl (1 - fl (of_nat (compressionLevel s1) / 100)) + fl (3 / 10)))\<rfloor> \<and>
         length (prtImageData P s2 pageWidth pageHeight numPages)
           \<le> length (prtImageData P s1 pageWidth pageHeight numPages)"
proof -
  have "length (prtImageData P s1 pageWidth pageHeight numPages)
           = nat \<lfloor>fl (fl (fl (fl (of_nat pageWidth * of_nat pageHeight)
                                 * of_nat (if colorMode s1 = CMYK then 4 else 1))
                             * of_nat numPages)
                         * fl (fl (1 - fl (of_nat (compressionLevel s1) / 100)) + fl (3 / 10)))\<rfloor>"
    by (simp add: length_prtImageData prtImageDataSize_def compressedImageSize_def
          baseImageSize_def bytesPerPixel_def compressionRatio_def)
  moreover have "length (prtImageData P s2 pageWidth pageHeight numPages)
           \<le> length (prtImageData P s1 pageWidth pageHeight numPages)"
    using compressedImageSize_antimono [OF assms(2,4), of pageWidth pageHeight numPages]
    by (simp add: length_prtImageData prtImageDataSize_def nat_mono)
  ultimately show ?thesis by (rule conjI)
qed

theorem C4_payload_length_witness:
  "10 \<le> compressionLevel scenario \<and>
   compressionLevel scenario \<le> compressionLevel (scenario\<lparr>compressionLevel := 100\<rparr>) \<and>
   compressionLevel (scenario\<lparr>compressionLevel := 100\<rparr>) \<le> 100 \<and>
   colorMode scenario = colorMode (scenario\<lparr>compressionLevel := 100\<rparr>) \<and>
   length (prtImageData host scenario 850 1100 1) = 467499 \<and>
   length (prtImageData host (scenario\<lparr>compressionLevel := 100\<rparr>) 850 1100 1)
     \<le> length (prtImageData host scenario 850 1100 1)"
proof -
  have h: "10 \<le> compressionLevel scenario"
    "compressionLevel scenario \<le> compressionLevel (scenario\<lparr>compressionLevel := 100\<rparr>)"
    "compressionLevel (scenario\<lparr>compressionLevel := 100\<rparr>) \<le> 100"
    "colorMode scenario = colorMode (scenario\<lparr>compressionLevel := 100\<rparr>)"
    by (simp_all add: scenario_def)
  have l: "length (prtImageData host scenario 850 1100 1) = 467499"
    unfolding length_prtImageData prtImageDataSize_def compressedImageSize_scenario by simp
  from C4_payload_length [OF h, of host 850 1100 1] h l show ?thesis by blast
qed

end
